theory Spec2Isabelle
  imports Main "HOL-Library.Sublist"
begin

section \<open>Python values shared by the models\<close>

text \<open>
  Exceptions are values. Every \<^verbatim>\<open>raise\<close> of the modelled code and of the library calls it
  makes is a result \<open>Inl e\<close>; \<open>RemoteError\<close> stands for whatever exception a call into
  boto3 raises (a subclass of \<^verbatim>\<open>Exception\<close>), carrying its message.
\<close>

datatype exn =
    ValueError
  | KeyError
  | IndexError
  | TypeError
  | AttributeError
  | RemoteError string

text \<open>
  Python truthiness of an optional string argument (\<^verbatim>\<open>if access_key:\<close>, \<^verbatim>\<open>if not region:\<close>):
  \<^verbatim>\<open>None\<close> and the empty string are false.
\<close>

definition truthy :: "string option \<Rightarrow> bool" where
  "truthy x = (case x of None \<Rightarrow> False | Some s \<Rightarrow> s \<noteq> [])"

section \<open>Regular expressions of the \<^verbatim>\<open>re\<close> module\<close>

text \<open>
  The fragment of Python's \<^verbatim>\<open>re\<close> syntax that \<^verbatim>\<open>stackcreate\<close> uses: literal characters, the
  classes \<^verbatim>\<open>\w\<close> and \<^verbatim>\<open>\d\<close> (ASCII, since no flag is given), concatenation, and the
  repetitions \<^verbatim>\<open>+\<close> and \<^verbatim>\<open>{1,2}\<close>. For this fragment a match exists exactly when the
  matched substring is in the regular language, which the derivative matcher decides.
\<close>

definition is_digit :: "char \<Rightarrow> bool" where
  "is_digit ch = (48 \<le> (of_char ch :: nat) \<and> (of_char ch :: nat) \<le> 57)"

definition is_word :: "char \<Rightarrow> bool" where
  "is_word ch =
     (let n = (of_char ch :: nat)
      in (48 \<le> n \<and> n \<le> 57) \<or> (65 \<le> n \<and> n \<le> 90) \<or> (97 \<le> n \<and> n \<le> 122) \<or> n = 95)"

datatype cls = Lit char | WordChar | DigitChar

fun cls_match :: "cls \<Rightarrow> char \<Rightarrow> bool" where
  "cls_match (Lit a) ch = (a = ch)"
| "cls_match WordChar ch = is_word ch"
| "cls_match DigitChar ch = is_digit ch"

datatype regex =
    Nul
  | Eps
  | Atom cls
  | Seq regex regex
  | Alt regex regex
  | Star regex

fun nullable :: "regex \<Rightarrow> bool" where
  "nullable Nul = False"
| "nullable Eps = True"
| "nullable (Atom a) = False"
| "nullable (Seq r s) = (nullable r \<and> nullable s)"
| "nullable (Alt r s) = (nullable r \<or> nullable s)"
| "nullable (Star r) = True"

fun deriv :: "char \<Rightarrow> regex \<Rightarrow> regex" where
  "deriv ch Nul = Nul"
| "deriv ch Eps = Nul"
| "deriv ch (Atom a) = (if cls_match a ch then Eps else Nul)"
| "deriv ch (Seq r s) =
     (if nullable r then Alt (Seq (deriv ch r) s) (deriv ch s) else Seq (deriv ch r) s)"
| "deriv ch (Alt r s) = Alt (deriv ch r) (deriv ch s)"
| "deriv ch (Star r) = Seq (deriv ch r) (Star r)"

text \<open>\<^verbatim>\<open>re.match\<close>: some prefix of the string is matched.\<close>

fun re_match :: "regex \<Rightarrow> string \<Rightarrow> bool" where
  "re_match r [] = nullable r"
| "re_match r (ch # s) = (nullable r \<or> re_match (deriv ch r) s)"

text \<open>\<^verbatim>\<open>re.search\<close>: a match starts at some position of the string.\<close>

fun re_search :: "regex \<Rightarrow> string \<Rightarrow> bool" where
  "re_search r [] = nullable r"
| "re_search r (ch # s) = (re_match r (ch # s) \<or> re_search r s)"

definition Plus :: "regex \<Rightarrow> regex" where
  "Plus r = Seq r (Star r)"

fun lits :: "string \<Rightarrow> regex" where
  "lits [] = Eps"
| "lits (ch # s) = Seq (Atom (Lit ch)) (lits s)"

text \<open>The pattern \<^verbatim>\<open>'\$\[\w+_genpass_\d{1,2}]'\<close> of \<^verbatim>\<open>stackcreate\<close>.\<close>

definition genpass_re :: regex where
  "genpass_re =
     Seq (lits ''$['')
       (Seq (Plus (Atom WordChar))
         (Seq (lits ''_genpass_'')
           (Seq (Atom DigitChar)
             (Seq (Alt (Atom DigitChar) Eps)
               (Atom (Lit (CHR '']'')))))))"

section \<open>Random sampling\<close>

text \<open>
  The random source is an infinite sequence of raw draws \<open>rnd 0, rnd 1, \<dots>\<close> together with
  the position of the next unused draw; every function that draws returns the new position.
  All results below hold for every sequence.

  \<^verbatim>\<open>random.sample(population, k)\<close> is Python's library function. It raises
  \<^verbatim>\<open>ValueError\<close> unless \<open>0 \<le> k \<le> len(population)\<close>; otherwise it selects \<open>k\<close> positions
  without replacement. The model is its pool branch: the \<open>i\<close>-th draw picks a position
  \<open>j\<close> below the number of remaining items, takes \<open>pool[j]\<close> and moves the last remaining
  item into the vacancy. The library takes this branch for the 57 characters of
  \<^verbatim>\<open>genpassword\<close> when \<open>k \<ge> 6\<close>, which includes the only call that \<^verbatim>\<open>stackcreate\<close> makes
  (\<open>k = 8\<close>). For \<open>1 \<le> k \<le> 5\<close> the library instead draws positions of the unchanged
  population and draws again on a repeat: there the model gives the same length, without
  repetition, from the same population, but not the same string for the same draws.
\<close>

type_synonym rng = "nat \<Rightarrow> nat"

fun sample_pool :: "rng \<Rightarrow> nat \<Rightarrow> 'a list \<Rightarrow> nat \<Rightarrow> 'a list \<times> nat" where
  "sample_pool rnd c pool 0 = ([], c)"
| "sample_pool rnd c pool (Suc k) =
     (let j = rnd c mod length pool;
          x = pool ! j;
          pool' = butlast (pool[j := last pool]);
          (xs, c') = sample_pool rnd (Suc c) pool' k
      in (x # xs, c'))"

definition random_sample :: "rng \<Rightarrow> nat \<Rightarrow> 'a list \<Rightarrow> int \<Rightarrow> exn + ('a list \<times> nat)" where
  "random_sample rnd c population k =
     (if 0 \<le> k \<and> k \<le> int (length population)
      then Inr (sample_pool rnd c population (nat k))
      else Inl ValueError)"

section \<open>Parameter materializer (\<^verbatim>\<open>taskcat.py\<close>)\<close>

text \<open>
  \<^verbatim>\<open>map(chr, range(48, 57) + range(65, 90) + range(97, 120))\<close>: the population that
  \<^verbatim>\<open>genpassword\<close> samples from. Python's \<^verbatim>\<open>range\<close> excludes its upper bound.
\<close>

definition genpassword_chars :: string where
  "genpassword_chars = map char_of ([48..<57] @ [65..<90] @ [97..<120 :: nat])"

text \<open>\<^verbatim>\<open>TaskCat.genpassword\<close>; \<^verbatim>\<open>''.join\<close> of a list of characters is the string itself.\<close>

definition genpassword :: "rng \<Rightarrow> nat \<Rightarrow> int \<Rightarrow> exn + (string \<times> nat)" where
  "genpassword rnd c passlength =
     (let plen = passlength
      in random_sample rnd c genpassword_chars plen)"

text \<open>
  An entry of the parameter file: a JSON object with the two string members
  \<^verbatim>\<open>ParameterKey\<close> and \<^verbatim>\<open>ParameterValue\<close>.
\<close>

record parmdict =
  ParameterKey :: string
  ParameterValue :: string

text \<open>The keys that \<^verbatim>\<open>for keys in parmdict\<close> ranges over.\<close>

definition parmdict_keys :: "parmdict \<Rightarrow> string list" where
  "parmdict_keys p = [''ParameterKey'', ''ParameterValue'']"

text \<open>\<^verbatim>\<open>re.sub('[^0-9]', '', s)\<close>: the string without its non-digits.\<close>

definition re_sub_nondigits :: "string \<Rightarrow> string" where
  "re_sub_nondigits s = filter is_digit s"

text \<open>
  The body of \<^verbatim>\<open>for keys in parmdict\<close> in \<^verbatim>\<open>stackcreate\<close>. The value of the
  \<^verbatim>\<open>re.sub\<close> call is computed and dropped, and the password length is the constant 8.
\<close>

fun stackcreate_keys :: "rng \<Rightarrow> string list \<Rightarrow> parmdict \<times> nat \<Rightarrow> exn + (parmdict \<times> nat)" where
  "stackcreate_keys rnd [] (parm, c) = Inr (parm, c)"
| "stackcreate_keys rnd (keys # rest) (parm, c) =
     (if re_search genpass_re (ParameterValue parm)
      then (let dropped = re_sub_nondigits (ParameterValue parm)
            in case genpassword rnd c 8 of
                 Inl e \<Rightarrow> Inl e
               | Inr (password, c') \<Rightarrow>
                   stackcreate_keys rnd rest (parm\<lparr>ParameterValue := password\<rparr>, c'))
      else stackcreate_keys rnd rest (parm, c))"

text \<open>
  \<^verbatim>\<open>for parmdict in s_parms\<close>: the document is rewritten in place, entry by entry; an
  exception leaves the loop (the caller's handler then ends the process).
\<close>

fun stackcreate_parms :: "rng \<Rightarrow> nat \<Rightarrow> parmdict list \<Rightarrow> exn + (parmdict list \<times> nat)" where
  "stackcreate_parms rnd c [] = Inr ([], c)"
| "stackcreate_parms rnd c (parm # s_parms) =
     (case stackcreate_keys rnd (parmdict_keys parm) (parm, c) of
        Inl e \<Rightarrow> Inl e
      | Inr (parm', c') \<Rightarrow>
          (case stackcreate_parms rnd c' s_parms of
             Inl e \<Rightarrow> Inl e
           | Inr (rest, c'') \<Rightarrow> Inr (parm' # rest, c'')))"

section \<open>Stack polling (\<^verbatim>\<open>taskcat.py\<close>)\<close>

text \<open>
  The remote service and the two regular expressions of \<^verbatim>\<open>stackcheck\<close> are parameters:
  \<open>region_of\<close> and \<open>stack_name_of\<close> are \<^verbatim>\<open>regxfind(region_re, _)\<close> and
  \<^verbatim>\<open>regxfind(stack_name_re, _)\<close>, and \<open>describe_stacks region name n\<close> is the outcome of
  the \<open>n\<close>-th \<^verbatim>\<open>describe_stacks(StackName=name)\<close> call (counted from 0) made for that
  stack in that region: an exception, or the \<^verbatim>\<open>StackStatus\<close> of every member of the
  \<^verbatim>\<open>'Stacks'\<close> list of the response. Creating the boto3 client itself does not raise.
\<close>

record cfn_env =
  region_of :: "string \<Rightarrow> string"
  stack_name_of :: "string \<Rightarrow> string"
  describe_stacks :: "string \<Rightarrow> string \<Rightarrow> nat \<Rightarrow> exn + string list"

text \<open>
  What the polling changes: the number of describe calls issued so far for each
  (region, stack name), the total time slept, and the number of completed passes of the
  \<^verbatim>\<open>while\<close> body (a counter the source does not keep; it is there to state bounds).
\<close>

record poll_state =
  calls :: "string \<times> string \<Rightarrow> nat"
  slept :: nat
  passes :: nat

text \<open>A tracked record: the response of \<^verbatim>\<open>create_stack\<close>, of which only \<^verbatim>\<open>'StackId'\<close> is read.\<close>

record stackdata =
  StackId :: string

text \<open>The members of the list \<^verbatim>\<open>test_info\<close>: strings and integers.\<close>

datatype item = Str string | Num int

text \<open>
  The \<^verbatim>\<open>try\<close>/\<^verbatim>\<open>except\<close> of \<^verbatim>\<open>stackcheck\<close>, as a function of the outcome of the describe
  call: four items are appended for every member of \<^verbatim>\<open>'Stacks'\<close>; the handler appends
  four items to the list, which is still empty when the call itself raised.
\<close>

definition stackcheck_info :: "string \<Rightarrow> string \<Rightarrow> exn + string list \<Rightarrow> item list" where
  "stackcheck_info stack_name region test_query =
     (case test_query of
        Inr stacks \<Rightarrow>
          concat (map (\<lambda>status.
            [Str stack_name, Str region, Str status,
             (if status = ''CREATE_IN_PROGRESS'' \<or> status = ''DELETE_IN_PROGRESS''
              then Num 1 else Num 0)]) stacks)
      | Inl e \<Rightarrow> [Str stack_name, Str region, Str ''USER_DELETED'', Num 0])"

definition stackcheck :: "cfn_env \<Rightarrow> poll_state \<Rightarrow> string \<Rightarrow> item list \<times> poll_state" where
  "stackcheck env st stack_id =
     (let region = region_of env stack_id;
          stack_name = stack_name_of env stack_id;
          n = calls st (region, stack_name);
          test_query = describe_stacks env region stack_name n
      in (stackcheck_info stack_name region test_query,
          st\<lparr>calls := (calls st)((region, stack_name) := Suc n)\<rparr>))"

text \<open>
  \<^verbatim>\<open>stackquery[3] + current_active_tests\<close>: indexing past the end raises \<^verbatim>\<open>IndexError\<close>,
  adding a string to an integer raises \<^verbatim>\<open>TypeError\<close>.
\<close>

definition stackquery_3 :: "item list \<Rightarrow> exn + int" where
  "stackquery_3 stackquery =
     (if length stackquery \<le> 3 then Inl IndexError
      else case stackquery ! 3 of Num n \<Rightarrow> Inr n | Str s \<Rightarrow> Inl TypeError)"

text \<open>
  The \<^verbatim>\<open>for stack in stackids\<close> loop of \<^verbatim>\<open>get_stackstatus\<close>, on the triple
  (\<^verbatim>\<open>current_active_tests\<close>, \<^verbatim>\<open>active_tests\<close>, state). \<^verbatim>\<open>active_tests\<close> is assigned in the
  body, after the query of each stack.
\<close>

fun get_stackstatus_for ::
  "cfn_env \<Rightarrow> nat \<Rightarrow> stackdata list \<Rightarrow> int \<times> int \<times> poll_state \<Rightarrow> exn + (int \<times> int \<times> poll_state)"
where
  "get_stackstatus_for env speed [] (current_active_tests, active_tests, st) =
     Inr (current_active_tests, active_tests, st)"
| "get_stackstatus_for env speed (stack # rest) (current_active_tests, active_tests, st) =
     (let (stackquery, st1) = stackcheck env st (StackId stack)
      in case stackquery_3 stackquery of
           Inl e \<Rightarrow> Inl e
         | Inr flag \<Rightarrow>
             (let current_active_tests' = flag + current_active_tests;
                  active_tests' = current_active_tests';
                  st2 = st1\<lparr>slept := slept st1 + speed\<rparr>
              in get_stackstatus_for env speed rest (current_active_tests', active_tests', st2)))"

text \<open>
  The \<^verbatim>\<open>while (active_tests > 0)\<close> loop. It has no bound, so the model is a partial
  function: \<open>None\<close> is the loop that never ends, \<open>Some (Inl e)\<close> an exception leaving it,
  \<open>Some (Inr (active_tests, st))\<close> its normal end.
\<close>

partial_function (option) get_stackstatus_while ::
  "cfn_env \<Rightarrow> nat \<Rightarrow> stackdata list \<Rightarrow> int \<times> poll_state \<Rightarrow> (exn + (int \<times> poll_state)) option"
where
  "get_stackstatus_while env speed stackids s =
     (if fst s > 0
      then (case get_stackstatus_for env speed stackids (0, fst s, snd s) of
              Inl e \<Rightarrow> Some (Inl e)
            | Inr r \<Rightarrow>
                get_stackstatus_while env speed stackids
                  (fst (snd r), (snd (snd r))\<lparr>passes := Suc (passes (snd (snd r)))\<rparr>))
      else Some (Inr s))"

definition get_stackstatus ::
  "cfn_env \<Rightarrow> stackdata list \<Rightarrow> nat \<Rightarrow> poll_state \<Rightarrow> (exn + (int \<times> poll_state)) option" where
  "get_stackstatus env stackids speed st = get_stackstatus_while env speed stackids (1, st)"

section \<open>Client cache (\<^verbatim>\<open>utils.py\<close>)\<close>

text \<open>
  A boto3 session and a client are objects; the model gives each the number of the
  constructor call that made it as its identity. \<open>session_access_key\<close> is what
  \<^verbatim>\<open>get_credentials()\<close> yields: \<open>None\<close> when no credentials resolve.
\<close>

record session =
  session_id :: nat
  session_region :: string
  session_access_key :: "string option"

record client =
  client_id :: nat
  client_service :: string
  client_sig :: string
  client_session :: nat

text \<open>
  \<^verbatim>\<open>self._clients[role][region]\<close> is one dictionary that holds, under the key
  \<^verbatim>\<open>'session'\<close>, the session, and under each service name a dictionary from the signature
  version to the client.
\<close>

datatype slot = SessionSlot session | ServiceSlot "string \<Rightarrow> client option"

type_synonym cache = "string \<Rightarrow> (string \<Rightarrow> (string \<Rightarrow> slot option) option) option"

text \<open>
  The library and the process environment: the outcome of the \<open>n\<close>-th call of
  \<^verbatim>\<open>boto3.session.Session(...)\<close> and of the \<open>n\<close>-th call of \<^verbatim>\<open>session.client(...)\<close> (\<open>None\<close>:
  the call returns; \<open>Some e\<close>: it raises \<open>e\<close>), the access key that the default credential
  chain resolves, and \<^verbatim>\<open>os.environ['AWS_DEFAULT_REGION']\<close>.
\<close>

record boto_env =
  new_session :: "nat \<Rightarrow> exn option"
  new_client :: "nat \<Rightarrow> exn option"
  env_access_key :: "string option"
  env_region :: "string option"

text \<open>
  The factory: its cache, the numbers of constructor calls made so far, and the arguments
  of every \<^verbatim>\<open>sleep\<close>, oldest first. The factory is taken to have been built with a logger
  object; log calls change nothing. One thread runs, so the lock is always free.
\<close>

record factory =
  clients :: cache
  session_calls :: nat
  client_calls :: nat
  sleeps :: "nat list"

definition factory_init :: factory where
  "factory_init =
     \<lparr>clients = [''default_role'' \<mapsto> Map.empty], session_calls = 0, client_calls = 0,
      sleeps = []\<rparr>"

definition max_retries :: nat where
  "max_retries = 4"

text \<open>\<^verbatim>\<open>ClientFactory._create_session\<close>: the loop, from the current value of \<^verbatim>\<open>retry\<close>.\<close>

function create_session_loop ::
  "boto_env \<Rightarrow> string \<Rightarrow> string option \<Rightarrow> string option \<Rightarrow> string option \<Rightarrow> nat \<Rightarrow> factory
     \<Rightarrow> (exn + session) \<times> factory"
where
  "create_session_loop env region access_key secret_key session_token retry st =
     (let n = session_calls st;
          st1 = st\<lparr>session_calls := Suc n\<rparr>
      in case new_session env n of
           None \<Rightarrow>
             (Inr \<lparr>session_id = n, session_region = region,
                   session_access_key =
                     (if truthy access_key \<and> truthy secret_key \<and> truthy session_token
                      then access_key else env_access_key env)\<rparr>, st1)
         | Some e \<Rightarrow>
             (let retry' = retry + 1
              in if retry' \<ge> max_retries then (Inl e, st1)
                 else create_session_loop env region access_key secret_key session_token retry'
                        (st1\<lparr>sleeps := sleeps st1 @ [5 * retry' ^ 2]\<rparr>)))"
  by pat_completeness auto
termination
  by (relation "measure (\<lambda>(env, region, ak, sk, tok, retry, st). max_retries - retry)") auto

declare create_session_loop.simps [simp del]

definition create_session ::
  "boto_env \<Rightarrow> string \<Rightarrow> string option \<Rightarrow> string option \<Rightarrow> string option \<Rightarrow> factory
     \<Rightarrow> (exn + session) \<times> factory" where
  "create_session env region access_key secret_key session_token st =
     create_session_loop env region access_key secret_key session_token 0 st"

text \<open>\<^verbatim>\<open>self._clients[role][region][key]\<close>, with the \<^verbatim>\<open>KeyError\<close> of a missing key.\<close>

definition lookup_slot :: "cache \<Rightarrow> string \<Rightarrow> string \<Rightarrow> string \<Rightarrow> exn + slot" where
  "lookup_slot cl role region key =
     (case cl role of
        None \<Rightarrow> Inl KeyError
      | Some rm \<Rightarrow>
          (case rm region of
             None \<Rightarrow> Inl KeyError
           | Some sm \<Rightarrow> (case sm key of None \<Rightarrow> Inl KeyError | Some sl \<Rightarrow> Inr sl)))"

text \<open>\<^verbatim>\<open>self._clients[role][region][key] = sl\<close>.\<close>

definition store_slot :: "factory \<Rightarrow> string \<Rightarrow> string \<Rightarrow> string \<Rightarrow> slot \<Rightarrow> exn + factory" where
  "store_slot st role region key sl =
     (case clients st role of
        None \<Rightarrow> Inl KeyError
      | Some rm \<Rightarrow>
          (case rm region of
             None \<Rightarrow> Inl KeyError
           | Some sm \<Rightarrow>
               Inr (st\<lparr>clients := (clients st)(role \<mapsto> rm(region \<mapsto> sm(key \<mapsto> sl)))\<rparr>)))"

text \<open>
  One pass through the \<^verbatim>\<open>try\<close> of \<^verbatim>\<open>_create_client\<close>: the session is read from the cache
  and asked for a client. A dictionary in the session's place has no \<^verbatim>\<open>client\<close> attribute.
\<close>

definition client_attempt ::
  "boto_env \<Rightarrow> string \<Rightarrow> string \<Rightarrow> string \<Rightarrow> string \<Rightarrow> factory \<Rightarrow> (exn + client) \<times> factory" where
  "client_attempt env role region service s3v4 st =
     (case lookup_slot (clients st) role region ''session'' of
        Inl e \<Rightarrow> (Inl e, st)
      | Inr (ServiceSlot d) \<Rightarrow> (Inl AttributeError, st)
      | Inr (SessionSlot s) \<Rightarrow>
          (let n = client_calls st;
               st1 = st\<lparr>client_calls := Suc n\<rparr>
           in case new_client env n of
                None \<Rightarrow>
                  (Inr \<lparr>client_id = n, client_service = service, client_sig = s3v4,
                        client_session = session_id s\<rparr>, st1)
              | Some e \<Rightarrow> (Inl e, st1)))"

text \<open>\<^verbatim>\<open>ClientFactory._create_client\<close>: the loop, from the current value of \<^verbatim>\<open>retry\<close>.\<close>

function create_client_loop ::
  "boto_env \<Rightarrow> string \<Rightarrow> string \<Rightarrow> string \<Rightarrow> string \<Rightarrow> nat \<Rightarrow> factory \<Rightarrow> (exn + client) \<times> factory"
where
  "create_client_loop env role region service s3v4 retry st =
     (case client_attempt env role region service s3v4 st of
        (Inr c, st1) \<Rightarrow> (Inr c, st1)
      | (Inl e, st1) \<Rightarrow>
          (let retry' = retry + 1
           in if retry' \<ge> max_retries then (Inl e, st1)
              else create_client_loop env role region service s3v4 retry'
                     (st1\<lparr>sleeps := sleeps st1 @ [5 * retry' ^ 2]\<rparr>)))"
  by pat_completeness auto
termination
  by (relation "measure (\<lambda>(env, role, region, service, s3v4, retry, st). max_retries - retry)") auto

declare create_client_loop.simps [simp del]

definition create_client ::
  "boto_env \<Rightarrow> string \<Rightarrow> string \<Rightarrow> string \<Rightarrow> string \<Rightarrow> factory \<Rightarrow> (exn + client) \<times> factory" where
  "create_client env role region service s3v4 st =
     create_client_loop env role region service s3v4 0 st"

text \<open>
  The \<^verbatim>\<open>try\<close> block of \<^verbatim>\<open>get\<close>: the cached client, then the comparison of the cached
  session's access key with a supplied one. Subscripting a session object raises
  \<^verbatim>\<open>TypeError\<close>; \<^verbatim>\<open>get_credentials\<close> of a dictionary, and \<^verbatim>\<open>access_key\<close> of \<^verbatim>\<open>None\<close>, raise
  \<^verbatim>\<open>AttributeError\<close>.
\<close>

definition get_try ::
  "cache \<Rightarrow> string \<Rightarrow> string \<Rightarrow> string \<Rightarrow> string \<Rightarrow> string option \<Rightarrow> exn + client" where
  "get_try cl role region service s3v4 access_key =
     (case lookup_slot cl role region service of
        Inl e \<Rightarrow> Inl e
      | Inr (SessionSlot s) \<Rightarrow> Inl TypeError
      | Inr (ServiceSlot d) \<Rightarrow>
          (case d s3v4 of
             None \<Rightarrow> Inl KeyError
           | Some c \<Rightarrow>
               if truthy access_key
               then (case lookup_slot cl role region ''session'' of
                       Inl e \<Rightarrow> Inl e
                     | Inr (ServiceSlot d') \<Rightarrow> Inl AttributeError
                     | Inr (SessionSlot s) \<Rightarrow>
                         (case session_access_key s of
                            None \<Rightarrow> Inl AttributeError
                          | Some k \<Rightarrow> if Some k \<noteq> access_key then Inl KeyError else Inr c))
               else Inr c))"

text \<open>
  The \<^verbatim>\<open>except KeyError\<close> block of \<^verbatim>\<open>get\<close>. The third test reads the keys of
  \<^verbatim>\<open>self._clients[role]\<close> (the regions), as the source does; the session is built only when
  the region's dictionary has no \<^verbatim>\<open>'session'\<close> key.
\<close>

definition get_miss ::
  "boto_env \<Rightarrow> string \<Rightarrow> string \<Rightarrow> string \<Rightarrow> string option \<Rightarrow> string option \<Rightarrow> string option
     \<Rightarrow> string \<Rightarrow> factory \<Rightarrow> (exn + client) \<times> factory" where
  "get_miss env service region role access_key secret_key session_token s3v4 st =
     (let rm0 = (case clients st role of None \<Rightarrow> Map.empty | Some rm \<Rightarrow> rm);
          rm1 = (case rm0 region of None \<Rightarrow> rm0(region \<mapsto> Map.empty) | Some sm \<Rightarrow> rm0);
          sm1 = (case rm1 region of None \<Rightarrow> Map.empty | Some sm \<Rightarrow> sm);
          sm2 = (if rm1 service = None then sm1(service \<mapsto> ServiceSlot Map.empty) else sm1);
          st2 = st\<lparr>clients := (clients st)(role \<mapsto> rm1(region \<mapsto> sm2))\<rparr>;
          with_session =
            (if sm2 ''session'' = None
             then (case create_session env region access_key secret_key session_token st2 of
                     (Inl e, st3) \<Rightarrow> (Inl e, st3)
                   | (Inr s, st3) \<Rightarrow>
                       (case store_slot st3 role region ''session'' (SessionSlot s) of
                          Inl e \<Rightarrow> (Inl e, st3)
                        | Inr st4 \<Rightarrow> (Inr (), st4)))
             else (Inr (), st2))
      in case with_session of
           (Inl e, st4) \<Rightarrow> (Inl e, st4)
         | (Inr u, st4) \<Rightarrow>
             (case create_client env role region service s3v4 st4 of
                (Inl e, st5) \<Rightarrow> (Inl e, st5)
              | (Inr c, st5) \<Rightarrow>
                  (case lookup_slot (clients st5) role region service of
                     Inl e \<Rightarrow> (Inl e, st5)
                   | Inr (SessionSlot s) \<Rightarrow> (Inl TypeError, st5)
                   | Inr (ServiceSlot d) \<Rightarrow>
                       (case store_slot st5 role region service (ServiceSlot (d(s3v4 \<mapsto> c))) of
                          Inl e \<Rightarrow> (Inl e, st5)
                        | Inr st6 \<Rightarrow> (Inr c, st6)))))"

text \<open>\<^verbatim>\<open>ClientFactory.get\<close>.\<close>

definition get ::
  "boto_env \<Rightarrow> string \<Rightarrow> string option \<Rightarrow> string \<Rightarrow> string option \<Rightarrow> string option
     \<Rightarrow> string option \<Rightarrow> bool \<Rightarrow> factory \<Rightarrow> (exn + client) \<times> factory" where
  "get env service region role access_key secret_key session_token s3v4 st =
     (case (if \<not> truthy region
            then (case env_region env of None \<Rightarrow> Inl KeyError | Some r \<Rightarrow> Inr r)
            else (case region of None \<Rightarrow> Inl KeyError | Some r \<Rightarrow> Inr r)) of
        Inl e \<Rightarrow> (Inl e, st)
      | Inr region' \<Rightarrow>
          (let s3v4' = (if s3v4 then ''s3v4'' else ''default_sig_version'')
           in case get_try (clients st) role region' service s3v4' access_key of
                Inr c \<Rightarrow> (Inr c, st)
              | Inl KeyError \<Rightarrow>
                  get_miss env service region' role access_key secret_key session_token s3v4' st
              | Inl e \<Rightarrow> (Inl e, st)))"

section \<open>Command line (\<^verbatim>\<open>taskcat.py\<close>)\<close>

text \<open>
  The command line, as the options given on it. The model covers the command lines made
  of the options that \<^verbatim>\<open>interface\<close> declares (and \<^verbatim>\<open>-h\<close>/\<^verbatim>\<open>--help\<close>, which argparse
  adds), each value option followed by its value: \<open>given_P = Some p\<close> says that
  \<^verbatim>\<open>-P p\<close> (or \<^verbatim>\<open>--boto-profile p\<close>) is on the line, \<open>given_ey = True\<close> that \<^verbatim>\<open>-ey\<close> is.
\<close>

record command_line =
  given_c :: "string option"
  given_P :: "string option"
  given_A :: "string option"
  given_S :: "string option"
  given_ey :: bool
  given_v :: bool
  given_h :: bool

text \<open>The namespace that \<^verbatim>\<open>parser.parse_args()\<close> returns.\<close>

record args =
  config_yml :: "string option"
  boto_profile :: "string option"
  aws_access_key :: "string option"
  aws_secret_key :: "string option"
  example_yaml :: bool
  verbose :: bool

text \<open>
  What the process does that can be observed from outside, in order: the help text, the
  line \<^verbatim>\<open>None\<close> (the printed value of \<^verbatim>\<open>print_help()\<close>), the two lines of the example
  configuration, the usage and message of a parser error, and a call into the network.
\<close>

datatype event =
    PrintHelp
  | PrintNone
  | PrintExampleHeader
  | PrintExampleYaml
  | ParserError string
  | NetworkCall string

text \<open>A call either returns or ends the process with an exit status.\<close>

datatype 'a outcome = Exit int | Returns 'a

text \<open>
  \<^verbatim>\<open>parser.parse_args()\<close> of argparse, on such a command line: with the help option it
  prints the help and exits with status 0; otherwise it returns the namespace, in which
  an option that was not given is \<^verbatim>\<open>None\<close> or \<^verbatim>\<open>False\<close>.
\<close>

definition parse_args :: "command_line \<Rightarrow> args outcome \<times> event list" where
  "parse_args argv =
     (if given_h argv then (Exit 0, [PrintHelp])
      else (Returns \<lparr>config_yml = given_c argv, boto_profile = given_P argv,
                     aws_access_key = given_A argv, aws_secret_key = given_S argv,
                     example_yaml = given_ey argv, verbose = given_v argv\<rparr>, []))"

text \<open>\<^verbatim>\<open>len(sys.argv) == 1\<close>: nothing follows the program name.\<close>

definition len_sys_argv_is_1 :: "command_line \<Rightarrow> bool" where
  "len_sys_argv_is_1 argv =
     (given_c argv = None \<and> given_P argv = None \<and> given_A argv = None \<and>
      given_S argv = None \<and> \<not> given_ey argv \<and> \<not> given_v argv \<and> \<not> given_h argv)"

text \<open>
  \<^verbatim>\<open>parser.error(message)\<close> of argparse writes the usage and the message to standard error
  and exits with status 2; the statements after it are never reached.
\<close>

definition parser_error :: "string \<Rightarrow> 'a outcome \<times> event list" where
  "parser_error message = (Exit 2, [ParserError message])"

text \<open>
  \<^verbatim>\<open>TaskCat.interface\<close>, from the command line and the current value of \<^verbatim>\<open>self.verbose\<close>;
  it yields the outcome, the events and the new \<^verbatim>\<open>self.verbose\<close>. An exit inside
  \<^verbatim>\<open>parse_args\<close> ends the process there.
\<close>

definition interface :: "command_line \<Rightarrow> bool \<Rightarrow> args outcome \<times> event list \<times> bool" where
  "interface argv self_verbose =
     (case parse_args argv of
        (Exit status, evs) \<Rightarrow> (Exit status, evs, self_verbose)
      | (Returns a, evs) \<Rightarrow>
          if len_sys_argv_is_1 argv
          then (Exit 0, evs @ [PrintHelp, PrintNone], self_verbose)
          else if example_yaml a
          then (Exit 0, evs @ [PrintExampleHeader, PrintExampleYaml], self_verbose)
          else (let self_verbose' = (if verbose a then True else self_verbose)
                in if boto_profile a \<noteq> None
                   then (if aws_access_key a \<noteq> None \<or> aws_secret_key a \<noteq> None
                         then (let (out, evs') =
                                 parser_error (''Cannot use boto profile -P (--boto_profile)'' @
                                               ''with --aws_access_key or --aws_secret_key'')
                               in (out, evs @ evs', self_verbose'))
                         else (Returns a, evs, self_verbose'))
                   else (Returns a, evs, self_verbose')))"

definition network_calls :: "event list \<Rightarrow> string list" where
  "network_calls evs = concat (map (\<lambda>ev. case ev of NetworkCall s \<Rightarrow> [s] | _ \<Rightarrow> []) evs)"

section \<open>Notions used to state the polling claims\<close>

text \<open>
  The (region, stack name) that \<^verbatim>\<open>stackcheck\<close> queries for a tracked record, and what the
  record adds to the active count when the describe call made for it is the \<open>n\<close>-th one.
\<close>

definition target :: "cfn_env \<Rightarrow> stackdata \<Rightarrow> string \<times> string" where
  "target env stack = (region_of env (StackId stack), stack_name_of env (StackId stack))"

definition flag_at :: "cfn_env \<Rightarrow> stackdata \<Rightarrow> nat \<Rightarrow> exn + int" where
  "flag_at env stack n =
     stackquery_3
       (stackcheck_info (stack_name_of env (StackId stack)) (region_of env (StackId stack))
          (describe_stacks env (region_of env (StackId stack))
             (stack_name_of env (StackId stack)) n))"

text \<open>What a record adds to the active count when it is queried next from state \<open>st\<close>.\<close>

definition count_at :: "cfn_env \<Rightarrow> poll_state \<Rightarrow> stackdata \<Rightarrow> int" where
  "count_at env st stack =
     (case flag_at env stack (calls st (target env stack)) of Inr flag \<Rightarrow> flag | Inl e \<Rightarrow> 0)"

text \<open>
  Every describe call for a tracked record raises or reports a stack (the response never
  has an empty \<^verbatim>\<open>'Stacks'\<close> list).
\<close>

definition answers :: "cfn_env \<Rightarrow> stackdata list \<Rightarrow> bool" where
  "answers env stackids =
     (\<forall>stack \<in> set stackids. \<forall>n. flag_at env stack n \<noteq> Inl IndexError)"

text \<open>
  The hypothesis of the convergence claim: every record's describe call returns a
  terminal status after at most \<open>N\<close> calls. Terminal is taken as \<^verbatim>\<open>stackcheck\<close> takes it: from
  the \<open>N\<close>-th call made from state \<open>st\<close> on, the record counts 0 (so a status such as
  \<^verbatim>\<open>UPDATE_IN_PROGRESS\<close>, which the code counts 0, settles a record in this sense).
\<close>

definition settles_within :: "cfn_env \<Rightarrow> poll_state \<Rightarrow> stackdata list \<Rightarrow> nat \<Rightarrow> bool" where
  "settles_within env st stackids N =
     (\<forall>stack \<in> set stackids. \<forall>n.
        flag_at env stack (calls st (target env stack) + (N - 1) + n) = Inr 0)"

section \<open>Concrete inputs\<close>

text \<open>The inputs at which the theorems below are evaluated.\<close>

definition count_up :: rng where
  "count_up = (\<lambda>n. n)"

definition demo_parms :: "parmdict list" where
  "demo_parms =
     [\<lparr>ParameterKey = ''Pwd'', ParameterValue = ''$[alpha_genpass_8]''\<rparr>,
      \<lparr>ParameterKey = ''Region'', ParameterValue = ''us-east-1''\<rparr>]"

text \<open>
  A remote in which the stack \<^verbatim>\<open>tCaT-gone\<close> no longer exists and every other stack is in
  progress for two describe calls and complete from the third.
\<close>

definition demo_cfn :: cfn_env where
  "demo_cfn =
     \<lparr>region_of = (\<lambda>stack_id. ''us-east-1''),
      stack_name_of = (\<lambda>stack_id. stack_id),
      describe_stacks = (\<lambda>region name n.
        if name = ''tCaT-gone'' then Inl (RemoteError ''Stack does not exist'')
        else if n < 2 then Inr [''CREATE_IN_PROGRESS'']
        else Inr [''CREATE_COMPLETE''])\<rparr>"

definition poll_init :: poll_state where
  "poll_init = \<lparr>calls = (\<lambda>t. 0), slept = 0, passes = 0\<rparr>"

definition gone_stack :: stackdata where
  "gone_stack = \<lparr>StackId = ''tCaT-gone''\<rparr>"

definition live_stack :: stackdata where
  "live_stack = \<lparr>StackId = ''tCaT-live''\<rparr>"

text \<open>The command line \<^verbatim>\<open>-c config.yml -P dev -A AKIA1\<close>.\<close>

definition demo_command_line :: command_line where
  "demo_command_line =
     \<lparr>given_c = Some ''config.yml'', given_P = Some ''dev'', given_A = Some ''AKIA1'',
      given_S = None, given_ey = False, given_v = False, given_h = False\<rparr>"

text \<open>
  Three library environments: one in which no constructor call fails, one in which the
  first two calls of each constructor fail, one in which every call fails.
\<close>

definition calm_env :: boto_env where
  "calm_env =
     \<lparr>new_session = (\<lambda>n. None), new_client = (\<lambda>n. None),
      env_access_key = Some ''AKIAENV'', env_region = Some ''us-west-2''\<rparr>"

definition flaky_env :: boto_env where
  "flaky_env =
     \<lparr>new_session = (\<lambda>n. if n < 2 then Some (RemoteError ''timeout'') else None),
      new_client = (\<lambda>n. if n < 2 then Some (RemoteError ''timeout'') else None),
      env_access_key = Some ''AKIAENV'', env_region = Some ''us-west-2''\<rparr>"

definition down_env :: boto_env where
  "down_env =
     \<lparr>new_session = (\<lambda>n. Some (RemoteError ''unreachable'')),
      new_client = (\<lambda>n. Some (RemoteError ''unreachable'')),
      env_access_key = None, env_region = None\<rparr>"

text \<open>A factory whose cache holds a session for the default role in \<^verbatim>\<open>us-east-1\<close>.\<close>

definition demo_session :: session where
  "demo_session =
     \<lparr>session_id = 0, session_region = ''us-east-1'', session_access_key = Some ''AKIAENV''\<rparr>"

definition demo_factory :: factory where
  "demo_factory =
     \<lparr>clients =
        [''default_role'' \<mapsto> [''us-east-1'' \<mapsto> [''session'' \<mapsto> SessionSlot demo_session]]],
      session_calls = 0, client_calls = 0, sleeps = []\<rparr>"

text \<open>
  The factory after \<^verbatim>\<open>get('s3', region='us-east-1', access_key='AKIA1', ...)\<close> on a new
  factory, and after a second call that supplies the access key \<^verbatim>\<open>AKIA2\<close>.
\<close>

definition after_first_get :: factory where
  "after_first_get =
     snd (get calm_env ''s3'' (Some ''us-east-1'') ''default_role''
            (Some ''AKIA1'') (Some ''secret1'') (Some ''token1'') False factory_init)"

definition after_second_get :: factory where
  "after_second_get =
     snd (get calm_env ''s3'' (Some ''us-east-1'') ''default_role''
            (Some ''AKIA2'') (Some ''secret2'') (Some ''token2'') False after_first_get)"

section \<open>Facts about sampling and password generation\<close>

lemma sample_pool_length: "length (fst (sample_pool rnd c pool k)) = k"
proof (induction k arbitrary: c pool)
  case 0
  show ?case by simp
next
  case (Suc k)
  define pool' where "pool' = butlast (pool[rnd c mod length pool := last pool])"
  obtain xs c' where s: "sample_pool rnd (Suc c) pool' k = (xs, c')"
    by (cases "sample_pool rnd (Suc c) pool' k")
  from Suc.IH [of "Suc c" pool'] s have "length xs = k" by simp
  with s show ?case by (simp add: Let_def pool'_def)
qed

lemma genpassword_chars_eq:
  "genpassword_chars = ''012345678ABCDEFGHIJKLMNOPQRSTUVWXYabcdefghijklmnopqrstuvw''"
  unfolding genpassword_chars_def by code_simp

lemma genpassword_chars_length: "length genpassword_chars = 57"
  by (simp add: genpassword_chars_eq)

lemma genpassword_ok:
  assumes "0 \<le> k" "k \<le> 57"
  shows "\<exists>pw c'. genpassword rnd c k = Inr (pw, c') \<and> int (length pw) = k"
proof -
  obtain pw c' where s: "sample_pool rnd c genpassword_chars (nat k) = (pw, c')"
    by (cases "sample_pool rnd c genpassword_chars (nat k)")
  have "length pw = nat k"
    using sample_pool_length [of rnd c genpassword_chars "nat k"] s by simp
  with assms s show ?thesis
    by (simp add: genpassword_def random_sample_def genpassword_chars_length)
qed

lemma genpassword_too_long:
  "57 < k \<Longrightarrow> genpassword rnd c k = Inl ValueError"
  by (simp add: genpassword_def random_sample_def genpassword_chars_length)

lemma sample_pool_step:
  assumes "distinct pool" "j < length pool"
  shows "distinct (butlast (pool[j := last pool])) \<and>
         set (butlast (pool[j := last pool])) = set pool - {pool ! j}"
proof -
  from assms(2) have ne: "pool \<noteq> []" by auto
  then obtain ys l where p: "pool = ys @ [l]" by (metis append_butlast_last_id)
  with assms(1) have d: "distinct ys" "l \<notin> set ys" by auto
  show ?thesis
  proof (cases "j = length ys")
    case True
    with p d show ?thesis by auto
  next
    case False
    with assms(2) p have j: "j < length ys" by simp
    then have u: "butlast (pool[j := last pool]) = ys[j := l]"
      using p by (simp add: list_update_append)
    have "distinct (ys[j := l])" using d j by (simp add: distinct_list_update)
    moreover have "set (ys[j := l]) = insert l (set ys - {ys ! j})"
      using d(1) j by (rule set_update_distinct)
    moreover have "pool ! j = ys ! j" using p j by (simp add: nth_append)
    moreover have "ys ! j \<noteq> l" using d(2) j by (metis nth_mem)
    ultimately show ?thesis using p d u by auto
  qed
qed

lemma sample_pool_distinct:
  "distinct pool \<Longrightarrow> k \<le> length pool \<Longrightarrow>
   distinct (fst (sample_pool rnd c pool k)) \<and> set (fst (sample_pool rnd c pool k)) \<subseteq> set pool"
proof (induction k arbitrary: c pool)
  case 0
  show ?case by simp
next
  case (Suc k)
  let ?j = "rnd c mod length pool"
  let ?pool' = "butlast (pool[?j := last pool])"
  from Suc.prems(2) have "0 < length pool" by (cases pool) simp_all
  then have j: "?j < length pool" by (rule mod_less_divisor)
  from sample_pool_step [OF Suc.prems(1) j]
  have s: "distinct ?pool'" "set ?pool' = set pool - {pool ! ?j}" by simp_all
  have "k \<le> length ?pool'" using Suc.prems(2) by simp
  from Suc.IH [OF s(1) this, of "Suc c"]
  have ih: "distinct (fst (sample_pool rnd (Suc c) ?pool' k))"
    "set (fst (sample_pool rnd (Suc c) ?pool' k)) \<subseteq> set pool - {pool ! ?j}"
    using s(2) by simp_all
  obtain xs c' where r: "sample_pool rnd (Suc c) ?pool' k = (xs, c')"
    by (cases "sample_pool rnd (Suc c) ?pool' k")
  have "fst (sample_pool rnd c pool (Suc k)) = pool ! ?j # xs"
    using r by (simp add: Let_def)
  moreover have "pool ! ?j \<in> set pool" using j by simp
  ultimately show ?case using ih r by auto
qed

text \<open>
  Whatever \<^verbatim>\<open>genpassword\<close> returns has the requested length and no repeated character,
  and is made of characters of the population.
\<close>

lemma genpassword_sound:
  assumes "genpassword rnd c k = Inr (pw, c')"
  shows "int (length pw) = k \<and> distinct pw \<and> set pw \<subseteq> set genpassword_chars"
proof -
  from assms have k: "0 \<le> k" "k \<le> 57" and pw: "pw = fst (sample_pool rnd c genpassword_chars (nat k))"
    by (auto simp: genpassword_def random_sample_def genpassword_chars_length split: if_splits)
  have d: "distinct genpassword_chars" by (simp add: genpassword_chars_eq)
  have "nat k \<le> length genpassword_chars" using k by (simp add: genpassword_chars_length)
  from sample_pool_distinct [OF d this, of rnd c] sample_pool_length [of rnd c genpassword_chars "nat k"] pw k
  show ?thesis by simp
qed

lemmas re_defs = genpass_re_def Plus_def is_word_def is_digit_def

lemma stackcreate_keys_total:
  "\<exists>parm' c'. stackcreate_keys rnd ks (parm, c) = Inr (parm', c') \<and>
     ParameterKey parm' = ParameterKey parm \<and>
     (\<not> re_search genpass_re (ParameterValue parm) \<longrightarrow> parm' = parm \<and> c' = c)"
proof (induction ks arbitrary: parm c)
  case Nil
  show ?case by simp
next
  case (Cons k ks)
  show ?case
  proof (cases "re_search genpass_re (ParameterValue parm)")
    case True
    obtain pw c1 where g: "genpassword rnd c 8 = Inr (pw, c1)"
      using genpassword_ok [of 8 rnd c] by auto
    from Cons.IH [of "parm\<lparr>ParameterValue := pw\<rparr>" c1] True g show ?thesis
      by (auto simp: Let_def)
  next
    case False
    with Cons.IH [of parm c] show ?thesis by simp
  qed
qed

lemma stackcreate_keys_length8:
  "length (ParameterValue parm) = 8 \<Longrightarrow>
   \<exists>parm' c'. stackcreate_keys rnd ks (parm, c) = Inr (parm', c') \<and>
     ParameterKey parm' = ParameterKey parm \<and> length (ParameterValue parm') = 8"
proof (induction ks arbitrary: parm c)
  case Nil
  then show ?case by simp
next
  case (Cons k ks)
  show ?case
  proof (cases "re_search genpass_re (ParameterValue parm)")
    case True
    obtain pw c1 where g: "genpassword rnd c 8 = Inr (pw, c1)" "int (length pw) = 8"
      using genpassword_ok [of 8 rnd c] by auto
    then have "length (ParameterValue (parm\<lparr>ParameterValue := pw\<rparr>)) = 8" by simp
    from Cons.IH [OF this, of c1] True g(1) show ?thesis
      by (auto simp: Let_def)
  next
    case False
    with Cons.IH [OF Cons.prems, of c] show ?thesis by simp
  qed
qed

text \<open>Every value that matches the token pattern is replaced by 8 characters.\<close>

lemma stackcreate_keys_token:
  assumes "re_search genpass_re (ParameterValue parm)"
  shows "\<exists>parm' c'. stackcreate_keys rnd (parmdict_keys parm) (parm, c) = Inr (parm', c') \<and>
     ParameterKey parm' = ParameterKey parm \<and> length (ParameterValue parm') = 8"
proof -
  obtain pw c1 where g: "genpassword rnd c 8 = Inr (pw, c1)" "int (length pw) = 8"
    using genpassword_ok [of 8 rnd c] by auto
  then have "length (ParameterValue (parm\<lparr>ParameterValue := pw\<rparr>)) = 8" by simp
  from stackcreate_keys_length8 [OF this, of rnd "[''ParameterValue'']" c1]
  obtain parm' c2 where k:
    "stackcreate_keys rnd [''ParameterValue''] (parm\<lparr>ParameterValue := pw\<rparr>, c1) = Inr (parm', c2)"
    "ParameterKey parm' = ParameterKey parm" "length (ParameterValue parm') = 8"
    by auto
  have "stackcreate_keys rnd (parmdict_keys parm) (parm, c) = Inr (parm', c2)"
    using assms g(1) k(1) by (simp add: parmdict_keys_def Let_def)
  with k(2,3) show ?thesis by blast
qed

section \<open>Parameter materializer: the claims\<close>

text \<open>
  Claim C1 says that a value matching the generation token with requested length \<open>L\<close> is
  replaced by a random string of exactly \<open>L\<close> characters. The code computes the digits of
  the token and drops them, then always asks for 8 characters: for the entry
  \<^verbatim>\<open>{"ParameterKey": "Pwd", "ParameterValue": "$[alpha_genpass_12]"}\<close> the digits are
  \<^verbatim>\<open>12\<close>, and the materialized value has 8 characters whatever the random source
  draws.
\<close>

theorem stackcreate_genpass_12_gives_8:
  "re_sub_nondigits ''$[alpha_genpass_12]'' = ''12'' \<and>
   (\<exists>pw c'. stackcreate_parms rnd c
        [\<lparr>ParameterKey = ''Pwd'', ParameterValue = ''$[alpha_genpass_12]''\<rparr>] =
        Inr ([\<lparr>ParameterKey = ''Pwd'', ParameterValue = pw\<rparr>], c') \<and> length pw = 8)"
proof
  show "re_sub_nondigits ''$[alpha_genpass_12]'' = ''12''"
    by (simp add: re_sub_nondigits_def is_digit_def)
next
  let ?p = "\<lparr>ParameterKey = ''Pwd'', ParameterValue = ''$[alpha_genpass_12]''\<rparr>"
  have m: "re_search genpass_re (ParameterValue ?p)"
    by (simp add: re_defs)
  obtain pw c1 where g: "genpassword rnd c 8 = Inr (pw, c1)" "int (length pw) = 8"
    using genpassword_ok [of 8 rnd c] by auto
  then have "length (ParameterValue (?p\<lparr>ParameterValue := pw\<rparr>)) = 8" by simp
  from stackcreate_keys_length8 [OF this, of rnd "[''ParameterValue'']" c1]
  obtain parm' c2 where k:
    "stackcreate_keys rnd [''ParameterValue''] (?p\<lparr>ParameterValue := pw\<rparr>, c1) = Inr (parm', c2)"
    "ParameterKey parm' = ''Pwd''" "length (ParameterValue parm') = 8"
    by auto
  have "stackcreate_keys rnd (parmdict_keys ?p) (?p, c) = Inr (parm', c2)"
    using m g(1) k(1) by (simp add: parmdict_keys_def Let_def)
  then have "stackcreate_parms rnd c [?p] = Inr ([parm'], c2)" by simp
  moreover have "parm' = \<lparr>ParameterKey = ''Pwd'', ParameterValue = ParameterValue parm'\<rparr>"
    using k(2) by simp
  ultimately show "\<exists>pw c'. stackcreate_parms rnd c [?p] =
        Inr ([\<lparr>ParameterKey = ''Pwd'', ParameterValue = pw\<rparr>], c') \<and> length pw = 8"
    using k(3) by metis
qed

text \<open>
  Claim C6 says that the password is sampled from all 62 alphanumeric characters, so that
  every length up to 62 succeeds. The three ranges of \<^verbatim>\<open>genpassword\<close> stop short: the
  population has 57 characters, without \<^verbatim>\<open>9\<close>, \<^verbatim>\<open>Z\<close>, \<^verbatim>\<open>x\<close>, \<^verbatim>\<open>y\<close> and \<^verbatim>\<open>z\<close>, and a
  request for 58 to 62 characters raises \<^verbatim>\<open>ValueError\<close>.
\<close>

theorem genpassword_population_short:
  "length genpassword_chars = 57 \<and>
   CHR ''9'' \<notin> set genpassword_chars \<and> CHR ''Z'' \<notin> set genpassword_chars \<and>
   CHR ''x'' \<notin> set genpassword_chars \<and> CHR ''y'' \<notin> set genpassword_chars \<and>
   CHR ''z'' \<notin> set genpassword_chars \<and>
   genpassword rnd c 58 = Inl ValueError \<and> genpassword rnd c 62 = Inl ValueError"
  by (simp add: genpassword_too_long genpassword_chars_length) (simp add: genpassword_chars_eq)

text \<open>
  Claim C8: materialization never fails on a document of key/value entries; the output
  has the entries of the input in the same order, every key is unchanged, and every entry
  whose value does not match the token pattern is unchanged.
\<close>

theorem stackcreate_parms_frame:
  "\<exists>doc' c'. stackcreate_parms rnd c doc = Inr (doc', c') \<and> length doc' = length doc \<and>
     (\<forall>i<length doc. ParameterKey (doc' ! i) = ParameterKey (doc ! i) \<and>
        (\<not> re_search genpass_re (ParameterValue (doc ! i)) \<longrightarrow> doc' ! i = doc ! i))"
proof (induction doc arbitrary: c)
  case Nil
  show ?case by simp
next
  case (Cons p doc)
  obtain p' c1 where k: "stackcreate_keys rnd (parmdict_keys p) (p, c) = Inr (p', c1)"
     "ParameterKey p' = ParameterKey p"
     "\<not> re_search genpass_re (ParameterValue p) \<longrightarrow> p' = p"
    using stackcreate_keys_total [of rnd "parmdict_keys p" p c] by auto
  obtain doc' c2 where r: "stackcreate_parms rnd c1 doc = Inr (doc', c2)"
    "length doc' = length doc"
    "\<forall>i<length doc. ParameterKey (doc' ! i) = ParameterKey (doc ! i) \<and>
        (\<not> re_search genpass_re (ParameterValue (doc ! i)) \<longrightarrow> doc' ! i = doc ! i)"
    using Cons.IH [of c1] by auto
  have "stackcreate_parms rnd c (p # doc) = Inr (p' # doc', c2)"
    using k(1) r(1) by simp
  moreover have "\<forall>i<length (p # doc).
        ParameterKey ((p' # doc') ! i) = ParameterKey ((p # doc) ! i) \<and>
        (\<not> re_search genpass_re (ParameterValue ((p # doc) ! i)) \<longrightarrow>
           (p' # doc') ! i = (p # doc) ! i)"
  proof (intro allI impI)
    fix i assume "i < length (p # doc)"
    then show "ParameterKey ((p' # doc') ! i) = ParameterKey ((p # doc) ! i) \<and>
        (\<not> re_search genpass_re (ParameterValue ((p # doc) ! i)) \<longrightarrow>
           (p' # doc') ! i = (p # doc) ! i)"
      using k(2,3) r(3) by (cases i) auto
  qed
  ultimately show ?case using r(2) by simp
qed

theorem stackcreate_parms_frame_witness:
  "(1::nat) < length demo_parms \<and>
   \<not> re_search genpass_re (ParameterValue (demo_parms ! 1)) \<and>
   (\<exists>doc' c'. stackcreate_parms count_up 0 demo_parms = Inr (doc', c') \<and>
      length doc' = 2 \<and> ParameterKey (doc' ! 0) = ''Pwd'' \<and>
      doc' ! 1 = \<lparr>ParameterKey = ''Region'', ParameterValue = ''us-east-1''\<rparr>)"
proof -
  have n: "\<not> re_search genpass_re (ParameterValue (demo_parms ! 1))"
    by (simp add: demo_parms_def re_defs)
  from stackcreate_parms_frame [of count_up 0 demo_parms]
  obtain doc' c' where d: "stackcreate_parms count_up 0 demo_parms = Inr (doc', c')"
     "length doc' = length demo_parms"
     "\<forall>i<length demo_parms. ParameterKey (doc' ! i) = ParameterKey (demo_parms ! i) \<and>
        (\<not> re_search genpass_re (ParameterValue (demo_parms ! i)) \<longrightarrow>
           doc' ! i = demo_parms ! i)"
    by auto
  have l: "length demo_parms = 2" by (simp add: demo_parms_def)
  from d(3) l have "ParameterKey (doc' ! 0) = ParameterKey (demo_parms ! 0)" by simp
  then have k0: "ParameterKey (doc' ! 0) = ''Pwd''" by (simp add: demo_parms_def)
  from d(3) l n have "doc' ! 1 = demo_parms ! 1" by simp
  then have k1: "doc' ! 1 = \<lparr>ParameterKey = ''Region'', ParameterValue = ''us-east-1''\<rparr>"
    by (simp add: demo_parms_def)
  from n d(1,2) l k0 k1 show ?thesis by simp
qed

section \<open>Stack polling: the claims\<close>

lemma get_stackstatus_while_ends:
  assumes "get_stackstatus_while env speed stackids s = Some r"
  shows "stackids \<noteq> [] \<or> fst s \<le> 0"
proof (rule get_stackstatus_while.raw_induct
    [where P = "\<lambda>env speed stackids s r. stackids \<noteq> [] \<or> fst s \<le> 0", OF _ assms])
  fix f :: "cfn_env \<Rightarrow> nat \<Rightarrow> stackdata list \<Rightarrow> int \<times> poll_state
              \<Rightarrow> (exn + (int \<times> poll_state)) option"
  fix env speed stackids s r
  assume IH: "\<And>env speed stackids s r.
    f env speed stackids s = Some r \<Longrightarrow> stackids \<noteq> [] \<or> fst s \<le> 0"
  assume eq: "(if 0 < fst s
      then case get_stackstatus_for env speed stackids (0, fst s, snd s) of
           Inl e \<Rightarrow> Some (Inl e)
         | Inr r \<Rightarrow> f env speed stackids
              (fst (snd r), snd (snd r)\<lparr>passes := Suc (passes (snd (snd r)))\<rparr>)
      else Some (Inr s)) = Some r"
  obtain act st where s: "s = (act, st)" by (cases s)
  show "stackids \<noteq> [] \<or> fst s \<le> 0"
  proof (cases "stackids = [] \<and> fst s > 0")
    case True
    with eq have "f env speed [] (act, st\<lparr>passes := Suc (passes st)\<rparr>) = Some r"
      by (simp add: s)
    from IH [OF this] True show ?thesis by (simp add: s)
  next
    case False
    then show ?thesis by auto
  qed
qed

text \<open>
  Claim C2, as amended: a record whose describe call returns one stack counts 1 towards
  the active count exactly when the status is \<^verbatim>\<open>CREATE_IN_PROGRESS\<close> or
  \<^verbatim>\<open>DELETE_IN_PROGRESS\<close>, and 0 for every other status.
\<close>

theorem stackcheck_flag_two_statuses:
  "stackquery_3 (stackcheck_info stack_name region (Inr [status])) =
     Inr (if status = ''CREATE_IN_PROGRESS'' \<or> status = ''DELETE_IN_PROGRESS'' then 1 else 0)"
  by (simp add: stackquery_3_def stackcheck_info_def)

text \<open>
  Claim C2 as stated fails: \<^verbatim>\<open>UPDATE_IN_PROGRESS\<close> contains \<^verbatim>\<open>IN_PROGRESS\<close> and counts 0.
\<close>

theorem stackcheck_flag_update_in_progress:
  "sublist ''IN_PROGRESS'' ''UPDATE_IN_PROGRESS'' \<and>
   stackquery_3 (stackcheck_info ''tCaT-demo-test-1a2b'' ''us-east-1''
     (Inr [''UPDATE_IN_PROGRESS''])) = Inr 0"
proof -
  have "''UPDATE_IN_PROGRESS'' = ''UPDATE_'' @ ''IN_PROGRESS'' @ []" by simp
  then have "sublist ''IN_PROGRESS'' ''UPDATE_IN_PROGRESS''"
    unfolding sublist_def by blast
  then show ?thesis by (simp add: stackquery_3_def stackcheck_info_def)
qed

text \<open>
  Claim C10: with no tracked record the \<^verbatim>\<open>for\<close> loop leaves \<^verbatim>\<open>active_tests\<close> as it was, and
  \<^verbatim>\<open>get_stackstatus\<close>, which starts it at 1, never returns.
\<close>

theorem get_stackstatus_empty_diverges:
  "get_stackstatus_for env speed [] (0, active_tests, st) = Inr (0, active_tests, st) \<and>
   get_stackstatus env [] speed st = None"
proof
  show "get_stackstatus_for env speed [] (0, active_tests, st) = Inr (0, active_tests, st)"
    by simp
next
  show "get_stackstatus env [] speed st = None"
  proof (cases "get_stackstatus env [] speed st")
    case None
    then show ?thesis .
  next
    case (Some r)
    then have "get_stackstatus_while env speed [] (1, st) = Some r"
      by (simp add: get_stackstatus_def)
    from get_stackstatus_while_ends [OF this] show ?thesis by simp
  qed
qed

lemma flag_at_cases:
  "flag_at env stack n = Inl IndexError \<or> flag_at env stack n = Inr 0 \<or> flag_at env stack n = Inr 1"
proof (cases "describe_stacks env (region_of env (StackId stack)) (stack_name_of env (StackId stack)) n")
  case (Inl e)
  then show ?thesis by (simp add: flag_at_def stackquery_3_def stackcheck_info_def)
next
  case (Inr stacks)
  then show ?thesis
    by (cases stacks) (simp_all add: flag_at_def stackquery_3_def stackcheck_info_def)
qed

lemma stackcheck_flag:
  "stackquery_3 (fst (stackcheck env st (StackId stack))) = flag_at env stack (calls st (target env stack))"
  by (simp add: stackcheck_def flag_at_def target_def Let_def)

lemma stackcheck_calls:
  "calls (snd (stackcheck env st (StackId stack))) =
     (calls st)(target env stack := Suc (calls st (target env stack)))"
  by (simp add: stackcheck_def target_def Let_def)

lemma stackcheck_passes:
  "passes (snd (stackcheck env st (StackId stack))) = passes st"
  by (simp add: stackcheck_def Let_def)

lemma get_stackstatus_for_step:
  "flag_at env stack (calls st (target env stack)) = Inr f \<Longrightarrow>
   get_stackstatus_for env speed (stack # rest) (cur, act, st) =
     get_stackstatus_for env speed rest
       (f + cur, f + cur, (snd (stackcheck env st (StackId stack)))
          \<lparr>slept := slept (snd (stackcheck env st (StackId stack))) + speed\<rparr>)"
proof -
  assume f: "flag_at env stack (calls st (target env stack)) = Inr f"
  obtain q st1 where q: "stackcheck env st (StackId stack) = (q, st1)"
    by (cases "stackcheck env st (StackId stack)")
  with stackcheck_flag [of env st stack] f have "stackquery_3 q = Inr f" by simp
  with q show ?thesis by (simp add: Let_def)
qed

lemma get_stackstatus_for_total:
  assumes "\<forall>stack \<in> set ids. \<forall>n. flag_at env stack n \<noteq> Inl IndexError"
  shows "\<exists>cur' act' st'. get_stackstatus_for env speed ids (cur, act, st) = Inr (cur', act', st') \<and>
      cur \<le> cur' \<and> (ids \<noteq> [] \<longrightarrow> act' = cur') \<and> passes st' = passes st \<and>
      (\<forall>t. calls st t \<le> calls st' t) \<and>
      (\<forall>stack \<in> set ids. calls st (target env stack) < calls st' (target env stack)) \<and>
      ((\<forall>stack \<in> set ids. \<forall>n \<ge> calls st (target env stack). flag_at env stack n = Inr 0)
          \<longrightarrow> cur' = cur)"
  using assms
proof (induction ids arbitrary: cur act st)
  case Nil
  show ?case by simp
next
  case (Cons stack rest)
  let ?n = "calls st (target env stack)"
  let ?st1 = "(snd (stackcheck env st (StackId stack)))
          \<lparr>slept := slept (snd (stackcheck env st (StackId stack))) + speed\<rparr>"
  from Cons.prems flag_at_cases [of env stack ?n]
  obtain f where f: "flag_at env stack ?n = Inr f" "0 \<le> f" by auto
  have c1: "calls ?st1 = (calls st)(target env stack := Suc ?n)"
    by (simp add: stackcheck_calls)
  have p1: "passes ?st1 = passes st" by (simp add: stackcheck_passes)
  from Cons.prems have "\<forall>stack \<in> set rest. \<forall>n. flag_at env stack n \<noteq> Inl IndexError" by simp
  from Cons.IH [OF this, of "f + cur" "f + cur" ?st1]
  obtain cur' act' st' where r:
    "get_stackstatus_for env speed rest (f + cur, f + cur, ?st1) = Inr (cur', act', st')"
    "f + cur \<le> cur'" "rest \<noteq> [] \<longrightarrow> act' = cur'" "passes st' = passes ?st1"
    "\<forall>t. calls ?st1 t \<le> calls st' t"
    "\<forall>stack \<in> set rest. calls ?st1 (target env stack) < calls st' (target env stack)"
    "(\<forall>stack \<in> set rest. \<forall>n \<ge> calls ?st1 (target env stack). flag_at env stack n = Inr 0)
          \<longrightarrow> cur' = f + cur"
    by blast
  have e: "get_stackstatus_for env speed (stack # rest) (cur, act, st) = Inr (cur', act', st')"
    using get_stackstatus_for_step [OF f(1)] r(1) by simp
  have a: "act' = cur'"
  proof (cases rest)
    case Nil
    with r(1) show ?thesis by simp
  next
    case (Cons x xs)
    with r(3) show ?thesis by simp
  qed
  have m: "\<forall>t. calls st t \<le> calls st' t"
  proof
    fix t
    have "calls st t \<le> calls ?st1 t" unfolding c1 by simp
    with r(5) show "calls st t \<le> calls st' t" using le_trans by blast
  qed
  have s: "\<forall>x \<in> set (stack # rest). calls st (target env x) < calls st' (target env x)"
  proof
    fix x assume "x \<in> set (stack # rest)"
    then consider "x = stack" | "x \<in> set rest" by auto
    then show "calls st (target env x) < calls st' (target env x)"
    proof cases
      case 1
      have "calls ?st1 (target env stack) = Suc ?n" unfolding c1 by simp
      with r(5) 1 show ?thesis by (metis Suc_le_lessD)
    next
      case 2
      have "calls st (target env x) \<le> calls ?st1 (target env x)" unfolding c1 by simp
      with r(6) 2 show ?thesis by (meson le_less_trans)
    qed
  qed
  have z: "(\<forall>x \<in> set (stack # rest). \<forall>n \<ge> calls st (target env x). flag_at env x n = Inr 0)
          \<longrightarrow> cur' = cur"
  proof
    assume h: "\<forall>x \<in> set (stack # rest). \<forall>n \<ge> calls st (target env x). flag_at env x n = Inr 0"
    then have "flag_at env stack ?n = Inr 0" by simp
    with f(1) have f0: "f = 0" by simp
    have "\<forall>x \<in> set rest. \<forall>n \<ge> calls ?st1 (target env x). flag_at env x n = Inr 0"
    proof (intro ballI allI impI)
      fix x n assume x: "x \<in> set rest" and n: "calls ?st1 (target env x) \<le> n"
      have "calls st (target env x) \<le> calls ?st1 (target env x)" unfolding c1 by simp
      with n have "calls st (target env x) \<le> n" by simp
      with h x show "flag_at env x n = Inr 0" by simp
    qed
    with r(7) f0 show "cur' = cur" by simp
  qed
  from e r(2) f(2) a r(4) p1 m s z show ?case by auto
qed

lemma get_stackstatus_while_converges:
  assumes "ids \<noteq> []" "\<forall>stack \<in> set ids. \<forall>n. flag_at env stack n \<noteq> Inl IndexError"
  shows "0 < act \<Longrightarrow>
    \<forall>stack \<in> set ids. \<forall>n \<ge> calls st (target env stack) + m. flag_at env stack n = Inr 0 \<Longrightarrow>
    \<exists>st'. get_stackstatus_while env speed ids (act, st) = Some (Inr (0, st')) \<and>
      passes st' \<le> passes st + m + 1"
proof (induction m arbitrary: act st)
  case 0
  from get_stackstatus_for_total [OF assms(2), of speed 0 act st] assms(1) 0(2)
  obtain st1 where r: "get_stackstatus_for env speed ids (0, act, st) = Inr (0, 0, st1)"
    "passes st1 = passes st"
    by auto
  have "get_stackstatus_while env speed ids (act, st) =
     get_stackstatus_while env speed ids (0, st1\<lparr>passes := Suc (passes st1)\<rparr>)"
    using 0(1) r(1) by (subst get_stackstatus_while.simps) simp
  also have "\<dots> = Some (Inr (0, st1\<lparr>passes := Suc (passes st1)\<rparr>))"
    by (subst get_stackstatus_while.simps) simp
  finally show ?case using r(2) by simp
next
  case (Suc m)
  from get_stackstatus_for_total [OF assms(2), of speed 0 act st] assms(1)
  obtain cur' st1 where r: "get_stackstatus_for env speed ids (0, act, st) = Inr (cur', cur', st1)"
    "0 \<le> cur'" "passes st1 = passes st"
    "\<forall>stack \<in> set ids. calls st (target env stack) < calls st1 (target env stack)"
    by auto
  let ?st2 = "st1\<lparr>passes := Suc (passes st1)\<rparr>"
  have step: "get_stackstatus_while env speed ids (act, st) =
     get_stackstatus_while env speed ids (cur', ?st2)"
    using Suc.prems(1) r(1) by (subst get_stackstatus_while.simps) simp
  show ?case
  proof (cases "cur' = 0")
    case True
    have "get_stackstatus_while env speed ids (cur', ?st2) = Some (Inr (0, ?st2))"
      using True by (subst get_stackstatus_while.simps) simp
    with step r(3) show ?thesis by simp
  next
    case False
    with r(2) have pos: "0 < cur'" by simp
    have "\<forall>stack \<in> set ids. \<forall>n \<ge> calls ?st2 (target env stack) + m. flag_at env stack n = Inr 0"
    proof (intro ballI allI impI)
      fix x n assume x: "x \<in> set ids" and n: "calls ?st2 (target env x) + m \<le> n"
      from r(4) x have "calls st (target env x) < calls st1 (target env x)" by simp
      with n have "calls st (target env x) + Suc m \<le> n" by simp
      with Suc.prems(2) x show "flag_at env x n = Inr 0" by simp
    qed
    from Suc.IH [OF pos this] obtain st' where
      "get_stackstatus_while env speed ids (cur', ?st2) = Some (Inr (0, st'))"
      "passes st' \<le> passes ?st2 + m + 1" by blast
    with step r(3) show ?thesis by simp
  qed
qed

text \<open>
  Convergence for a tracked set that is not empty: if every describe call answers, and
  every record counts 0 from its \<open>N\<close>-th call on, the loop ends normally with an active
  count of 0 after at most \<open>N\<close> passes.
\<close>

lemma get_stackstatus_converges:
  assumes "stackids \<noteq> []" "0 < N" "answers env stackids" "settles_within env st stackids N"
  shows "\<exists>st'. get_stackstatus env stackids speed st = Some (Inr (0, st')) \<and>
           passes st' \<le> passes st + N"
proof -
  have "\<forall>stack \<in> set stackids. \<forall>n \<ge> calls st (target env stack) + (N - 1). flag_at env stack n = Inr 0"
  proof (intro ballI allI impI)
    fix x n assume x: "x \<in> set stackids" and n: "calls st (target env x) + (N - 1) \<le> n"
    then obtain d where "n = calls st (target env x) + (N - 1) + d"
      using le_Suc_ex by blast
    with assms(4) x show "flag_at env x n = Inr 0"
      by (simp add: settles_within_def)
  qed
  from get_stackstatus_while_converges [OF assms(1) _ _ this, of 1 speed] assms(3)
  obtain st' where "get_stackstatus_while env speed stackids (1, st) = Some (Inr (0, st'))"
    "passes st' \<le> passes st + (N - 1) + 1"
    by (auto simp: answers_def)
  with assms(2) show ?thesis by (auto simp: get_stackstatus_def)
qed

text \<open>
  For instance, with one stack gone and one complete from its third describe call, the
  loop ends within three passes.
\<close>

lemma get_stackstatus_converges_demo:
  "\<exists>st'. get_stackstatus demo_cfn [\<lparr>StackId = ''tCaT-gone''\<rparr>, \<lparr>StackId = ''tCaT-live''\<rparr>] 5 poll_init =
      Some (Inr (0, st')) \<and> passes st' \<le> 3"
proof -
  have a: "answers demo_cfn [\<lparr>StackId = ''tCaT-gone''\<rparr>, \<lparr>StackId = ''tCaT-live''\<rparr>]"
    by (simp add: answers_def flag_at_def demo_cfn_def stackcheck_info_def stackquery_3_def)
  have s: "settles_within demo_cfn poll_init [\<lparr>StackId = ''tCaT-gone''\<rparr>, \<lparr>StackId = ''tCaT-live''\<rparr>] 3"
    by (simp add: settles_within_def flag_at_def demo_cfn_def stackcheck_info_def stackquery_3_def)
  from get_stackstatus_converges [OF _ _ a s, of 5] show ?thesis
    by (simp add: poll_init_def)
qed

text \<open>
  Claim C3 says that the loop ends within \<open>N\<close> passes for every tracked set whose records
  settle within \<open>N\<close> calls. The empty set settles for every \<open>N\<close>, and the loop does not end.
\<close>

theorem get_stackstatus_no_records_never_settles:
  "settles_within env st [] N \<and> answers env [] \<and> get_stackstatus env [] speed st = None"
proof -
  have "get_stackstatus env [] speed st = None"
  proof (cases "get_stackstatus env [] speed st")
    case None
    then show ?thesis .
  next
    case (Some r)
    then have "get_stackstatus_while env speed [] (1, st) = Some r"
      by (simp add: get_stackstatus_def)
    from get_stackstatus_while_ends [OF this] show ?thesis by simp
  qed
  then show ?thesis by (simp add: settles_within_def answers_def)
qed

theorem get_stackstatus_no_records_never_settles_witness:
  "settles_within demo_cfn poll_init [] 1 \<and> answers demo_cfn [] \<and>
   get_stackstatus demo_cfn [] 5 poll_init = None"
  using get_stackstatus_no_records_never_settles [of demo_cfn poll_init 1 5] .

text \<open>
  The \<^verbatim>\<open>for\<close> loop in closed form, for tracked records that name different stacks and
  whose describe calls answer: every record is queried once, their counts are added up,
  and the loop sleeps once per record.
\<close>

lemma get_stackstatus_for_distinct:
  assumes "\<forall>x \<in> set xs. flag_at env x (calls st (target env x)) \<noteq> Inl IndexError"
    and "distinct (map (target env) xs)"
  shows "get_stackstatus_for env speed xs (cur, act, st) =
     Inr (cur + sum_list (map (count_at env st) xs),
          (if xs = [] then act else cur + sum_list (map (count_at env st) xs)),
          st\<lparr>calls := (\<lambda>t. if t \<in> target env ` set xs then Suc (calls st t) else calls st t),
             slept := slept st + length xs * speed\<rparr>)"
  using assms
proof (induction xs arbitrary: cur act st)
  case Nil
  show ?case by simp
next
  case (Cons x xs)
  let ?n = "calls st (target env x)"
  let ?st1 = "(snd (stackcheck env st (StackId x)))
          \<lparr>slept := slept (snd (stackcheck env st (StackId x))) + speed\<rparr>"
  from Cons.prems(1) flag_at_cases [of env x ?n]
  obtain f where f: "flag_at env x ?n = Inr f" by auto
  then have cx: "count_at env st x = f" by (simp add: count_at_def)
  have c1: "calls ?st1 = (calls st)(target env x := Suc ?n)"
    by (simp add: stackcheck_calls)
  have s1: "?st1 = st\<lparr>calls := (calls st)(target env x := Suc ?n), slept := slept st + speed\<rparr>"
    by (simp add: stackcheck_def target_def Let_def)
  have other: "\<forall>y \<in> set xs. calls ?st1 (target env y) = calls st (target env y)"
  proof
    fix y assume y: "y \<in> set xs"
    from Cons.prems(2) have "target env x \<notin> target env ` set xs" by simp
    with y have "target env y \<noteq> target env x" by (metis imageI)
    then show "calls ?st1 (target env y) = calls st (target env y)"
      unfolding c1 by simp
  qed
  then have cnt: "map (count_at env ?st1) xs = map (count_at env st) xs"
    by (simp add: count_at_def)
  have a: "\<forall>y \<in> set xs. flag_at env y (calls ?st1 (target env y)) \<noteq> Inl IndexError"
    using Cons.prems(1) other by simp
  have d: "distinct (map (target env) xs)" using Cons.prems(2) by simp
  have fn: "(\<lambda>t. if t \<in> target env ` set xs then Suc (calls ?st1 t) else calls ?st1 t) =
            (\<lambda>t. if t \<in> target env ` set (x # xs) then Suc (calls st t) else calls st t)"
  proof
    fix t
    show "(if t \<in> target env ` set xs then Suc (calls ?st1 t) else calls ?st1 t) =
          (if t \<in> target env ` set (x # xs) then Suc (calls st t) else calls st t)"
      using Cons.prems(2) unfolding c1 by auto
  qed
  have "get_stackstatus_for env speed (x # xs) (cur, act, st) =
        get_stackstatus_for env speed xs (f + cur, f + cur, ?st1)"
    using get_stackstatus_for_step [OF f] .
  also have "\<dots> = Inr (f + cur + sum_list (map (count_at env ?st1) xs),
          (if xs = [] then f + cur else f + cur + sum_list (map (count_at env ?st1) xs)),
          ?st1\<lparr>calls := (\<lambda>t. if t \<in> target env ` set xs then Suc (calls ?st1 t) else calls ?st1 t),
             slept := slept ?st1 + length xs * speed\<rparr>)"
    using Cons.IH [OF a d] .
  finally have e: "get_stackstatus_for env speed (x # xs) (cur, act, st) =
        Inr (f + cur + sum_list (map (count_at env ?st1) xs),
          (if xs = [] then f + cur else f + cur + sum_list (map (count_at env ?st1) xs)),
          ?st1\<lparr>calls := (\<lambda>t. if t \<in> target env ` set xs then Suc (calls ?st1 t) else calls ?st1 t),
             slept := slept ?st1 + length xs * speed\<rparr>)" .
  have A: "f + cur + sum_list (map (count_at env ?st1) xs) =
           cur + sum_list (map (count_at env st) (x # xs))"
    unfolding cnt by (simp add: cx)
  have B: "(if xs = [] then f + cur else cur + sum_list (map (count_at env st) (x # xs))) =
           cur + sum_list (map (count_at env st) (x # xs))"
    using cx by auto
  have C: "?st1\<lparr>calls := (\<lambda>t. if t \<in> target env ` set xs then Suc (calls ?st1 t) else calls ?st1 t),
             slept := slept ?st1 + length xs * speed\<rparr> =
           st\<lparr>calls := (\<lambda>t. if t \<in> target env ` set (x # xs) then Suc (calls st t) else calls st t),
              slept := slept st + length (x # xs) * speed\<rparr>"
    unfolding fn unfolding s1 by simp
  show ?case unfolding e A B C by simp
qed

text \<open>
  Claim C4: when the describe call of a tracked stack raises, \<^verbatim>\<open>stackcheck\<close> returns the
  record with status \<^verbatim>\<open>USER_DELETED\<close> and count 0 and no exception leaves it. The \<^verbatim>\<open>for\<close>
  loop on that record alone ends normally with the count it started from, one describe
  call and one sleep made. With further records after it (naming other stacks, their
  describe calls answering) the loop ends normally too: every one of them is queried and
  slept for, and the active count is the sum of their counts alone. In general the loop
  on the record and the rest is the loop on the rest, started from the unchanged count.
\<close>

theorem stackcheck_describe_raises:
  assumes "describe_stacks env (region_of env (StackId stack)) (stack_name_of env (StackId stack))
      (calls st (target env stack)) = Inl e"
  shows
   "fst (stackcheck env st (StackId stack)) =
      [Str (stack_name_of env (StackId stack)), Str (region_of env (StackId stack)),
       Str ''USER_DELETED'', Num 0] \<and>
    stackquery_3 (fst (stackcheck env st (StackId stack))) = Inr 0 \<and>
    get_stackstatus_for env speed [stack] (current_active_tests, active_tests, st) =
      Inr (current_active_tests, current_active_tests,
           st\<lparr>calls := (calls st)(target env stack := Suc (calls st (target env stack))),
              slept := slept st + speed\<rparr>) \<and>
    (answers env rest \<and> distinct (map (target env) (stack # rest)) \<longrightarrow>
     get_stackstatus_for env speed (stack # rest) (current_active_tests, active_tests, st) =
       Inr (current_active_tests + sum_list (map (count_at env st) rest),
            current_active_tests + sum_list (map (count_at env st) rest),
            st\<lparr>calls := (\<lambda>t. if t \<in> target env ` set (stack # rest)
                               then Suc (calls st t) else calls st t),
               slept := slept st + Suc (length rest) * speed\<rparr>)) \<and>
    get_stackstatus_for env speed (stack # rest) (current_active_tests, active_tests, st) =
      get_stackstatus_for env speed rest
        (current_active_tests, current_active_tests,
         st\<lparr>calls := (calls st)(target env stack := Suc (calls st (target env stack))),
            slept := slept st + speed\<rparr>)"
proof -
  have f: "flag_at env stack (calls st (target env stack)) = Inr 0"
    using assms by (simp add: flag_at_def stackcheck_info_def stackquery_3_def)
  have c0: "count_at env st stack = 0" using f by (simp add: count_at_def)
  have 1: "fst (stackcheck env st (StackId stack)) =
      [Str (stack_name_of env (StackId stack)), Str (region_of env (StackId stack)),
       Str ''USER_DELETED'', Num 0]"
    using assms by (simp add: stackcheck_def stackcheck_info_def target_def Let_def)
  have 2: "stackquery_3 (fst (stackcheck env st (StackId stack))) = Inr 0"
    unfolding 1 by (simp add: stackquery_3_def)
  have s1: "(snd (stackcheck env st (StackId stack)))
          \<lparr>slept := slept (snd (stackcheck env st (StackId stack))) + speed\<rparr> =
        st\<lparr>calls := (calls st)(target env stack := Suc (calls st (target env stack))),
              slept := slept st + speed\<rparr>"
    by (simp add: stackcheck_def target_def Let_def)
  have 5: "get_stackstatus_for env speed (stack # rest) (current_active_tests, active_tests, st) =
      get_stackstatus_for env speed rest
        (current_active_tests, current_active_tests,
         st\<lparr>calls := (calls st)(target env stack := Suc (calls st (target env stack))),
            slept := slept st + speed\<rparr>)" for rest
    using get_stackstatus_for_step [OF f, of speed rest current_active_tests active_tests]
    unfolding s1 by simp
  have 3: "get_stackstatus_for env speed [stack] (current_active_tests, active_tests, st) =
      Inr (current_active_tests, current_active_tests,
           st\<lparr>calls := (calls st)(target env stack := Suc (calls st (target env stack))),
              slept := slept st + speed\<rparr>)"
    unfolding 5 by simp
  have 4: "get_stackstatus_for env speed (stack # rest) (current_active_tests, active_tests, st) =
       Inr (current_active_tests + sum_list (map (count_at env st) rest),
            current_active_tests + sum_list (map (count_at env st) rest),
            st\<lparr>calls := (\<lambda>t. if t \<in> target env ` set (stack # rest)
                               then Suc (calls st t) else calls st t),
               slept := slept st + Suc (length rest) * speed\<rparr>)"
    if h: "answers env rest \<and> distinct (map (target env) (stack # rest))"
  proof -
    have a: "\<forall>x \<in> set (stack # rest). flag_at env x (calls st (target env x)) \<noteq> Inl IndexError"
      using h f by (simp add: answers_def)
    from get_stackstatus_for_distinct [OF a, of speed current_active_tests active_tests] h c0
    show ?thesis by simp
  qed
  from 1 2 3 4 5 show ?thesis by blast
qed

theorem stackcheck_describe_raises_witness:
  "describe_stacks demo_cfn (region_of demo_cfn (StackId gone_stack))
      (stack_name_of demo_cfn (StackId gone_stack))
      (calls poll_init (target demo_cfn gone_stack)) = Inl (RemoteError ''Stack does not exist'') \<and>
   answers demo_cfn [live_stack] \<and>
   distinct (map (target demo_cfn) [gone_stack, live_stack]) \<and>
   fst (stackcheck demo_cfn poll_init (StackId gone_stack)) =
     [Str ''tCaT-gone'', Str ''us-east-1'', Str ''USER_DELETED'', Num 0] \<and>
   get_stackstatus_for demo_cfn 5 [gone_stack] (0, 1, poll_init) =
     Inr (0, 0, poll_init\<lparr>calls := (calls poll_init)((''us-east-1'', ''tCaT-gone'') := 1),
                       slept := 5\<rparr>) \<and>
   get_stackstatus_for demo_cfn 5 [gone_stack, live_stack] (0, 1, poll_init) =
     Inr (1, 1, poll_init\<lparr>calls := (\<lambda>t. if t \<in> target demo_cfn ` set [gone_stack, live_stack]
                                        then Suc (calls poll_init t) else calls poll_init t),
                       slept := 10\<rparr>)"
proof -
  have h: "describe_stacks demo_cfn (region_of demo_cfn (StackId gone_stack))
      (stack_name_of demo_cfn (StackId gone_stack))
      (calls poll_init (target demo_cfn gone_stack)) = Inl (RemoteError ''Stack does not exist'')"
    by (simp add: demo_cfn_def gone_stack_def)
  have a: "answers demo_cfn [live_stack]"
    by (simp add: answers_def flag_at_def demo_cfn_def live_stack_def stackcheck_info_def
        stackquery_3_def)
  have d: "distinct (map (target demo_cfn) [gone_stack, live_stack])"
    by (simp add: target_def demo_cfn_def gone_stack_def live_stack_def)
  have c: "count_at demo_cfn poll_init live_stack = 1"
    by (simp add: count_at_def flag_at_def target_def demo_cfn_def live_stack_def poll_init_def
        stackcheck_info_def stackquery_3_def)
  have t: "target demo_cfn gone_stack = (''us-east-1'', ''tCaT-gone'')"
    by (simp add: target_def demo_cfn_def gone_stack_def)
  have z: "calls poll_init (''us-east-1'', ''tCaT-gone'') = 0" "slept poll_init = 0"
    by (simp_all add: poll_init_def)
  have n: "region_of demo_cfn (StackId gone_stack) = ''us-east-1''"
     "stack_name_of demo_cfn (StackId gone_stack) = ''tCaT-gone''"
    by (simp_all add: demo_cfn_def gone_stack_def)
  have q: "describe_stacks demo_cfn ''us-east-1'' ''tCaT-gone'' 0 =
      Inl (RemoteError ''Stack does not exist'')"
    by (simp add: demo_cfn_def)
  from stackcheck_describe_raises [OF h, of 5 0 1 "[live_stack]"] a d
  show ?thesis
    by (simp add: c t n z q del: get_stackstatus_for.simps)
qed

section \<open>Client cache: the claims\<close>

lemma session_loop_success:
  "retry + k < max_retries \<Longrightarrow>
   (\<forall>i<k. new_session env (session_calls st + i) \<noteq> None) \<Longrightarrow>
   new_session env (session_calls st + k) = None \<Longrightarrow>
   create_session_loop env region ak sk tok retry st =
     (Inr \<lparr>session_id = session_calls st + k, session_region = region,
           session_access_key = (if truthy ak \<and> truthy sk \<and> truthy tok then ak else env_access_key env)\<rparr>,
      st\<lparr>session_calls := session_calls st + k + 1,
         sleeps := sleeps st @ map (\<lambda>j. 5 * j ^ 2) [retry + 1..<retry + k + 1]\<rparr>)"
proof (induction k arbitrary: retry st)
  case 0
  then show ?case by (subst create_session_loop.simps) (simp add: Let_def)
next
  case (Suc k)
  from Suc.prems(2) obtain e where e: "new_session env (session_calls st) = Some e"
    by (metis add.right_neutral not_None_eq zero_less_Suc)
  let ?st = "st\<lparr>session_calls := Suc (session_calls st), sleeps := sleeps st @ [5 * (retry + 1) ^ 2]\<rparr>"
  have a: "Suc retry + k < max_retries" using Suc.prems(1) by simp
  have b: "\<forall>i<k. new_session env (session_calls ?st + i) \<noteq> None"
    using Suc.prems(2) by auto
  have c: "new_session env (session_calls ?st + k) = None"
    using Suc.prems(3) by simp
  have step: "create_session_loop env region ak sk tok retry st =
     create_session_loop env region ak sk tok (Suc retry) ?st"
    using e Suc.prems(1) by (subst create_session_loop.simps) (simp add: Let_def)
  have u: "[retry + 1..<retry + Suc k + 1] = (retry + 1) # [Suc retry + 1..<Suc retry + k + 1]"
    by (simp add: upt_rec)
  show ?case
    unfolding step Suc.IH [OF a b c] u by simp
qed

lemma session_loop_exhaust:
  "retry + k = max_retries \<Longrightarrow> 0 < k \<Longrightarrow>
   (\<forall>i<k. new_session env (session_calls st + i) \<noteq> None) \<Longrightarrow>
   \<exists>e. new_session env (session_calls st + (k - 1)) = Some e \<and>
   create_session_loop env region ak sk tok retry st =
     (Inl e,
      st\<lparr>session_calls := session_calls st + k,
         sleeps := sleeps st @ map (\<lambda>j. 5 * j ^ 2) [retry + 1..<max_retries]\<rparr>)"
proof (induction k arbitrary: retry st)
  case 0
  then show ?case by simp
next
  case (Suc k)
  from Suc.prems(3) obtain e where e: "new_session env (session_calls st) = Some e"
    by (metis add.right_neutral not_None_eq zero_less_Suc)
  show ?case
  proof (cases "k = 0")
    case True
    with Suc.prems(1) have "retry + 1 = max_retries" by simp
    with e True show ?thesis
      by (subst create_session_loop.simps) (simp add: Let_def)
  next
    case False
    let ?st = "st\<lparr>session_calls := Suc (session_calls st), sleeps := sleeps st @ [5 * (retry + 1) ^ 2]\<rparr>"
    have a: "Suc retry + k = max_retries" using Suc.prems(1) by simp
    have b: "\<forall>i<k. new_session env (session_calls ?st + i) \<noteq> None"
      using Suc.prems(3) by auto
    have lt: "retry + 1 < max_retries" using a False by simp
    have step: "create_session_loop env region ak sk tok retry st =
       create_session_loop env region ak sk tok (Suc retry) ?st"
      using e lt by (subst create_session_loop.simps) (simp add: Let_def)
    have u: "[retry + 1..<max_retries] = (retry + 1) # [Suc retry + 1..<max_retries]"
      using lt by (simp add: upt_rec)
    from Suc.IH [OF a _ b] False obtain e' where
      e': "new_session env (session_calls ?st + (k - 1)) = Some e'"
      "create_session_loop env region ak sk tok (Suc retry) ?st =
        (Inl e', ?st\<lparr>session_calls := session_calls ?st + k,
           sleeps := sleeps ?st @ map (\<lambda>j. 5 * j ^ 2) [Suc retry + 1..<max_retries]\<rparr>)"
      by auto
    from e'(1) False have "new_session env (session_calls st + (Suc k - 1)) = Some e'"
      by simp
    moreover have "create_session_loop env region ak sk tok retry st =
      (Inl e', st\<lparr>session_calls := session_calls st + Suc k,
         sleeps := sleeps st @ map (\<lambda>j. 5 * j ^ 2) [retry + 1..<max_retries]\<rparr>)"
      unfolding step e'(2) u by simp
    ultimately show ?thesis by blast
  qed
qed


lemma client_attempt_ok:
  "lookup_slot (clients st) role region ''session'' = Inr (SessionSlot s) \<Longrightarrow>
   new_client env (client_calls st) = None \<Longrightarrow>
   client_attempt env role region service s3v4 st =
     (Inr \<lparr>client_id = client_calls st, client_service = service, client_sig = s3v4,
           client_session = session_id s\<rparr>, st\<lparr>client_calls := Suc (client_calls st)\<rparr>)"
  by (simp add: client_attempt_def Let_def)

lemma client_attempt_fail:
  "lookup_slot (clients st) role region ''session'' = Inr (SessionSlot s) \<Longrightarrow>
   new_client env (client_calls st) = Some e \<Longrightarrow>
   client_attempt env role region service s3v4 st =
     (Inl e, st\<lparr>client_calls := Suc (client_calls st)\<rparr>)"
  by (simp add: client_attempt_def Let_def)

lemma client_loop_success:
  "retry + k < max_retries \<Longrightarrow>
   lookup_slot (clients st) role region ''session'' = Inr (SessionSlot s) \<Longrightarrow>
   (\<forall>i<k. new_client env (client_calls st + i) \<noteq> None) \<Longrightarrow>
   new_client env (client_calls st + k) = None \<Longrightarrow>
   create_client_loop env role region service s3v4 retry st =
     (Inr \<lparr>client_id = client_calls st + k, client_service = service, client_sig = s3v4,
           client_session = session_id s\<rparr>,
      st\<lparr>client_calls := client_calls st + k + 1,
         sleeps := sleeps st @ map (\<lambda>j. 5 * j ^ 2) [retry + 1..<retry + k + 1]\<rparr>)"
proof (induction k arbitrary: retry st)
  case 0
  then show ?case
    by (subst create_client_loop.simps) (simp add: client_attempt_ok)
next
  case (Suc k)
  from Suc.prems(3) obtain e where e: "new_client env (client_calls st) = Some e"
    by (metis add.right_neutral not_None_eq zero_less_Suc)
  let ?st = "st\<lparr>client_calls := Suc (client_calls st), sleeps := sleeps st @ [5 * (retry + 1) ^ 2]\<rparr>"
  have a: "Suc retry + k < max_retries" using Suc.prems(1) by simp
  have l: "lookup_slot (clients ?st) role region ''session'' = Inr (SessionSlot s)"
    using Suc.prems(2) by simp
  have b: "\<forall>i<k. new_client env (client_calls ?st + i) \<noteq> None"
    using Suc.prems(3) by auto
  have c: "new_client env (client_calls ?st + k) = None"
    using Suc.prems(4) by simp
  have step: "create_client_loop env role region service s3v4 retry st =
     create_client_loop env role region service s3v4 (Suc retry) ?st"
    using e Suc.prems(1,2)
    by (subst create_client_loop.simps) (simp add: client_attempt_fail Let_def)
  have u: "[retry + 1..<retry + Suc k + 1] = (retry + 1) # [Suc retry + 1..<Suc retry + k + 1]"
    by (simp add: upt_rec)
  show ?case
    unfolding step Suc.IH [OF a l b c] u by simp
qed

lemma client_loop_exhaust:
  "retry + k = max_retries \<Longrightarrow> 0 < k \<Longrightarrow>
   lookup_slot (clients st) role region ''session'' = Inr (SessionSlot s) \<Longrightarrow>
   (\<forall>i<k. new_client env (client_calls st + i) \<noteq> None) \<Longrightarrow>
   \<exists>e. new_client env (client_calls st + (k - 1)) = Some e \<and>
   create_client_loop env role region service s3v4 retry st =
     (Inl e,
      st\<lparr>client_calls := client_calls st + k,
         sleeps := sleeps st @ map (\<lambda>j. 5 * j ^ 2) [retry + 1..<max_retries]\<rparr>)"
proof (induction k arbitrary: retry st)
  case 0
  then show ?case by simp
next
  case (Suc k)
  from Suc.prems(4) obtain e where e: "new_client env (client_calls st) = Some e"
    by (metis add.right_neutral not_None_eq zero_less_Suc)
  show ?case
  proof (cases "k = 0")
    case True
    with Suc.prems(1) have "retry + 1 = max_retries" by simp
    with e True Suc.prems(3) show ?thesis
      by (subst create_client_loop.simps) (simp add: client_attempt_fail Let_def)
  next
    case False
    let ?st = "st\<lparr>client_calls := Suc (client_calls st), sleeps := sleeps st @ [5 * (retry + 1) ^ 2]\<rparr>"
    have a: "Suc retry + k = max_retries" using Suc.prems(1) by simp
    have l: "lookup_slot (clients ?st) role region ''session'' = Inr (SessionSlot s)"
      using Suc.prems(3) by simp
    have b: "\<forall>i<k. new_client env (client_calls ?st + i) \<noteq> None"
      using Suc.prems(4) by auto
    have lt: "retry + 1 < max_retries" using a False by simp
    have step: "create_client_loop env role region service s3v4 retry st =
       create_client_loop env role region service s3v4 (Suc retry) ?st"
      using e lt Suc.prems(3)
      by (subst create_client_loop.simps) (simp add: client_attempt_fail Let_def)
    have u: "[retry + 1..<max_retries] = (retry + 1) # [Suc retry + 1..<max_retries]"
      using lt by (simp add: upt_rec)
    from Suc.IH [OF a _ l b] False obtain e' where
      e': "new_client env (client_calls ?st + (k - 1)) = Some e'"
      "create_client_loop env role region service s3v4 (Suc retry) ?st =
        (Inl e', ?st\<lparr>client_calls := client_calls ?st + k,
           sleeps := sleeps ?st @ map (\<lambda>j. 5 * j ^ 2) [Suc retry + 1..<max_retries]\<rparr>)"
      by auto
    from e'(1) False have "new_client env (client_calls st + (Suc k - 1)) = Some e'"
      by simp
    moreover have "create_client_loop env role region service s3v4 retry st =
      (Inl e', st\<lparr>client_calls := client_calls st + Suc k,
         sleeps := sleeps st @ map (\<lambda>j. 5 * j ^ 2) [retry + 1..<max_retries]\<rparr>)"
      unfolding step e'(2) u by simp
    ultimately show ?thesis by blast
  qed
qed

lemma backoff_3: "map (\<lambda>j. 5 * j ^ 2) [Suc 0..<max_retries] = [5, 20, 45::nat]"
  unfolding max_retries_def by code_simp

text \<open>
  Claim C7, for \<^verbatim>\<open>_create_session\<close> and for \<^verbatim>\<open>_create_client\<close>: when the first \<open>k < 4\<close>
  attempts fail and the next one succeeds, \<open>k + 1\<close> attempts are made and the sleeps are
  \<open>5 * j\<^sup>2\<close> for \<open>j = 1, \<dots>, k\<close>; when the first four attempts fail, four attempts are made,
  the sleeps are 5, 20 and 45, and the exception of the fourth attempt is raised.
\<close>

theorem create_retries_backoff:
  "(k < 4 \<and> (\<forall>i<k. new_session env (session_calls st + i) \<noteq> None) \<and>
      new_session env (session_calls st + k) = None \<longrightarrow>
    (\<exists>s. create_session env region access_key secret_key session_token st =
       (Inr s, st\<lparr>session_calls := session_calls st + k + 1,
                  sleeps := sleeps st @ map (\<lambda>j. 5 * j ^ 2) [1..<k + 1]\<rparr>)))
   \<and> ((\<forall>i<4. new_session env (session_calls st + i) \<noteq> None) \<longrightarrow>
    (\<exists>e. new_session env (session_calls st + 3) = Some e \<and>
       create_session env region access_key secret_key session_token st =
       (Inl e, st\<lparr>session_calls := session_calls st + 4,
                  sleeps := sleeps st @ [5, 20, 45]\<rparr>)))
   \<and> (k < 4 \<and> lookup_slot (clients st) role region ''session'' = Inr (SessionSlot s) \<and>
      (\<forall>i<k. new_client env (client_calls st + i) \<noteq> None) \<and>
      new_client env (client_calls st + k) = None \<longrightarrow>
    (\<exists>c. create_client env role region service s3v4 st =
       (Inr c, st\<lparr>client_calls := client_calls st + k + 1,
                  sleeps := sleeps st @ map (\<lambda>j. 5 * j ^ 2) [1..<k + 1]\<rparr>)))
   \<and> (lookup_slot (clients st) role region ''session'' = Inr (SessionSlot s) \<and>
      (\<forall>i<4. new_client env (client_calls st + i) \<noteq> None) \<longrightarrow>
    (\<exists>e. new_client env (client_calls st + 3) = Some e \<and>
       create_client env role region service s3v4 st =
       (Inl e, st\<lparr>client_calls := client_calls st + 4,
                  sleeps := sleeps st @ [5, 20, 45]\<rparr>)))"
proof (intro conjI impI)
  assume h: "k < 4 \<and> (\<forall>i<k. new_session env (session_calls st + i) \<noteq> None) \<and>
      new_session env (session_calls st + k) = None"
  then have "0 + k < max_retries" by (simp add: max_retries_def)
  from session_loop_success [OF this, of env st region access_key secret_key session_token] h
  show "\<exists>s. create_session env region access_key secret_key session_token st =
       (Inr s, st\<lparr>session_calls := session_calls st + k + 1,
                  sleeps := sleeps st @ map (\<lambda>j. 5 * j ^ 2) [1..<k + 1]\<rparr>)"
    by (simp add: create_session_def)
next
  assume h: "\<forall>i<4. new_session env (session_calls st + i) \<noteq> None"
  have "0 + 4 = max_retries" by (simp add: max_retries_def)
  from session_loop_exhaust [OF this _ h, of region access_key secret_key session_token]
  show "\<exists>e. new_session env (session_calls st + 3) = Some e \<and>
       create_session env region access_key secret_key session_token st =
       (Inl e, st\<lparr>session_calls := session_calls st + 4,
                  sleeps := sleeps st @ [5, 20, 45]\<rparr>)"
    by (simp add: create_session_def backoff_3)
next
  assume h: "k < 4 \<and> lookup_slot (clients st) role region ''session'' = Inr (SessionSlot s) \<and>
      (\<forall>i<k. new_client env (client_calls st + i) \<noteq> None) \<and>
      new_client env (client_calls st + k) = None"
  then have "0 + k < max_retries" by (simp add: max_retries_def)
  from client_loop_success [OF this, of st role region s env service s3v4] h
  show "\<exists>c. create_client env role region service s3v4 st =
       (Inr c, st\<lparr>client_calls := client_calls st + k + 1,
                  sleeps := sleeps st @ map (\<lambda>j. 5 * j ^ 2) [1..<k + 1]\<rparr>)"
    by (simp add: create_client_def)
next
  assume h: "lookup_slot (clients st) role region ''session'' = Inr (SessionSlot s) \<and>
      (\<forall>i<4. new_client env (client_calls st + i) \<noteq> None)"
  have "0 + 4 = max_retries" by (simp add: max_retries_def)
  from client_loop_exhaust [OF this, of st role region s env service s3v4] h
  show "\<exists>e. new_client env (client_calls st + 3) = Some e \<and>
       create_client env role region service s3v4 st =
       (Inl e, st\<lparr>client_calls := client_calls st + 4,
                  sleeps := sleeps st @ [5, 20, 45]\<rparr>)"
    by (simp add: create_client_def backoff_3)
qed

theorem create_retries_backoff_witness:
  "(\<exists>s. create_session flaky_env ''us-east-1'' None None None demo_factory =
       (Inr s, demo_factory\<lparr>session_calls := 3, sleeps := [5, 20]\<rparr>)) \<and>
   create_session down_env ''us-east-1'' None None None demo_factory =
       (Inl (RemoteError ''unreachable''), demo_factory\<lparr>session_calls := 4, sleeps := [5, 20, 45]\<rparr>) \<and>
   (\<exists>c. create_client flaky_env ''default_role'' ''us-east-1'' ''s3'' ''default_sig_version'' demo_factory =
       (Inr c, demo_factory\<lparr>client_calls := 3, sleeps := [5, 20]\<rparr>)) \<and>
   create_client down_env ''default_role'' ''us-east-1'' ''s3'' ''default_sig_version'' demo_factory =
       (Inl (RemoteError ''unreachable''), demo_factory\<lparr>client_calls := 4, sleeps := [5, 20, 45]\<rparr>)"
proof -
  have l: "lookup_slot (clients demo_factory) ''default_role'' ''us-east-1'' ''session'' =
    Inr (SessionSlot demo_session)"
    by (simp add: demo_factory_def lookup_slot_def)
  have b: "map (\<lambda>j. 5 * j ^ 2) [1..<2 + 1] = [5, 20::nat]" by code_simp
  have f: "\<forall>i<2. new_session flaky_env (session_calls demo_factory + i) \<noteq> None"
     "new_session flaky_env (session_calls demo_factory + 2) = None"
     "\<forall>i<2. new_client flaky_env (client_calls demo_factory + i) \<noteq> None"
     "new_client flaky_env (client_calls demo_factory + 2) = None"
    by (simp_all add: flaky_env_def demo_factory_def)
  have d: "\<forall>i<4. new_session down_env (session_calls demo_factory + i) \<noteq> None"
     "\<forall>i<4. new_client down_env (client_calls demo_factory + i) \<noteq> None"
    by (simp_all add: down_env_def)
  have z: "session_calls demo_factory = 0" "client_calls demo_factory = 0" "sleeps demo_factory = []"
    by (simp_all add: demo_factory_def)
  from create_retries_backoff [where k = 2 and env = flaky_env and st = demo_factory and region = "''us-east-1''"
        and access_key = None and secret_key = None and session_token = None
        and role = "''default_role''" and s = demo_session and service = "''s3''"
        and ?s3v4.0 = "''default_sig_version''"]
       f l b z
  have 1: "\<exists>s. create_session flaky_env ''us-east-1'' None None None demo_factory =
       (Inr s, demo_factory\<lparr>session_calls := 3, sleeps := [5, 20]\<rparr>)"
    and 3: "\<exists>c. create_client flaky_env ''default_role'' ''us-east-1'' ''s3'' ''default_sig_version'' demo_factory =
       (Inr c, demo_factory\<lparr>client_calls := 3, sleeps := [5, 20]\<rparr>)"
    by (simp_all add: numeral_3_eq_3)
  from create_retries_backoff [where k = 0 and env = down_env and st = demo_factory and region = "''us-east-1''"
        and access_key = None and secret_key = None and session_token = None
        and role = "''default_role''" and s = demo_session and service = "''s3''"
        and ?s3v4.0 = "''default_sig_version''"]
       d l z
  have 2: "create_session down_env ''us-east-1'' None None None demo_factory =
       (Inl (RemoteError ''unreachable''), demo_factory\<lparr>session_calls := 4, sleeps := [5, 20, 45]\<rparr>)"
    and 4: "create_client down_env ''default_role'' ''us-east-1'' ''s3'' ''default_sig_version'' demo_factory =
       (Inl (RemoteError ''unreachable''), demo_factory\<lparr>client_calls := 4, sleeps := [5, 20, 45]\<rparr>)"
    by (simp_all add: down_env_def)
  from 1 2 3 4 show ?thesis by blast
qed

lemma store_then_lookup:
  "store_slot st role region key sl = Inr st' \<Longrightarrow>
   lookup_slot (clients st') role region key = Inr sl"
  by (auto simp: store_slot_def lookup_slot_def split: option.splits)

lemma get_miss_cached:
  assumes "get_miss env service region role access_key secret_key session_token sig st = (Inr c, st')"
  shows "\<exists>d. lookup_slot (clients st') role region service = Inr (ServiceSlot d) \<and> d sig = Some c"
proof -
  from assms obtain st5 d where
    "store_slot st5 role region service (ServiceSlot (d(sig \<mapsto> c))) = Inr st'"
    by (auto simp: get_miss_def Let_def split: sum.splits prod.splits slot.splits if_splits)
  from store_then_lookup [OF this] show ?thesis by auto
qed

text \<open>
  The cache itself works: a call that supplies no access key and returns a client leaves
  the factory in a state in which the same call returns the same client and changes
  nothing.
\<close>

lemma get_twice_no_key:
  assumes "get env service region role None secret_key session_token s3v4 st = (Inr c, st')"
  shows "get env service region role None secret_key session_token s3v4 st' = (Inr c, st')"
proof -
  let ?sig = "if s3v4 then ''s3v4'' else ''default_sig_version''"
  from assms obtain r where
    r: "(if \<not> truthy region
         then (case env_region env of None \<Rightarrow> Inl KeyError | Some r \<Rightarrow> Inr r)
         else (case region of None \<Rightarrow> Inl KeyError | Some r \<Rightarrow> Inr r)) = Inr r"
    by (auto simp: get_def split: sum.splits)
  have hit: "get_try (clients st') role r service ?sig None = Inr c"
  proof (cases "get_try (clients st) role r service ?sig None")
    case (Inr c0)
    with assms r show ?thesis by (simp add: get_def Let_def)
  next
    case (Inl e)
    with assms r have m:
      "get_miss env service r role None secret_key session_token ?sig st = (Inr c, st')"
      by (cases e) (simp_all add: get_def Let_def)
    from get_miss_cached [OF m] show ?thesis
      by (auto simp: get_try_def truthy_def)
  qed
  with r show ?thesis by (simp add: get_def Let_def)
qed

lemmas get_defs = get_def get_try_def get_miss_def lookup_slot_def store_slot_def truthy_def
  factory_init_def create_session_def create_client_def client_attempt_def max_retries_def Let_def

text \<open>
  Claim C5 says that a supplied access key that differs from the cached session's forces a
  new session. After a first call with the key \<^verbatim>\<open>AKIA1\<close>, a call with \<^verbatim>\<open>AKIA2\<close> finds the
  difference and leaves the \<^verbatim>\<open>try\<close> block with the message "need a new session", but the
  handler builds a session only when the cache has none: the session of \<^verbatim>\<open>AKIA1\<close> stays,
  only one session is ever constructed, the new client is made from the old session, and
  a further identical call with \<^verbatim>\<open>AKIA2\<close> again builds another client. A repeated call with
  \<^verbatim>\<open>AKIA1\<close> returns the cached client.
\<close>

theorem get_changed_access_key_keeps_session:
  "fst (get calm_env ''s3'' (Some ''us-east-1'') ''default_role''
        (Some ''AKIA1'') (Some ''secret1'') (Some ''token1'') False after_first_get) =
     Inr \<lparr>client_id = 0, client_service = ''s3'', client_sig = ''default_sig_version'',
           client_session = 0\<rparr>
   \<and> lookup_slot (clients after_first_get) ''default_role'' ''us-east-1'' ''session'' =
     Inr (SessionSlot \<lparr>session_id = 0, session_region = ''us-east-1'', session_access_key = Some ''AKIA1''\<rparr>)
   \<and> fst (get calm_env ''s3'' (Some ''us-east-1'') ''default_role''
        (Some ''AKIA2'') (Some ''secret2'') (Some ''token2'') False after_first_get) =
     Inr \<lparr>client_id = 1, client_service = ''s3'', client_sig = ''default_sig_version'', client_session = 0\<rparr>
   \<and> lookup_slot (clients after_second_get) ''default_role'' ''us-east-1'' ''session'' =
     Inr (SessionSlot \<lparr>session_id = 0, session_region = ''us-east-1'', session_access_key = Some ''AKIA1''\<rparr>)
   \<and> session_calls after_second_get = 1
   \<and> fst (get calm_env ''s3'' (Some ''us-east-1'') ''default_role''
        (Some ''AKIA2'') (Some ''secret2'') (Some ''token2'') False after_second_get) =
     Inr \<lparr>client_id = 2, client_service = ''s3'', client_sig = ''default_sig_version'', client_session = 0\<rparr>"
  by (simp add: after_second_get_def after_first_get_def calm_env_def get_defs
      create_session_loop.simps create_client_loop.simps)

section \<open>Command line: the claims\<close>

text \<open>
  Claim C9, as amended. No network call is made by \<^verbatim>\<open>interface\<close> on any command line. With
  the help option the process prints the help and exits with status 0 inside
  \<^verbatim>\<open>parse_args\<close>; otherwise with \<^verbatim>\<open>-ey\<close> it prints the example configuration and exits
  with status 0; with neither of the two, and with the profile option and an explicit
  key option given, it exits with status 2 through the parser's error message.
\<close>

theorem interface_conflicting_auth:
  "network_calls (fst (snd (interface argv self_verbose))) = [] \<and>
   (given_h argv \<longrightarrow> interface argv self_verbose = (Exit 0, [PrintHelp], self_verbose)) \<and>
   (\<not> given_h argv \<and> given_ey argv \<longrightarrow>
      interface argv self_verbose =
        (Exit 0, [PrintExampleHeader, PrintExampleYaml], self_verbose)) \<and>
   (\<not> given_h argv \<and> \<not> given_ey argv \<and> given_P argv \<noteq> None \<and>
    (given_A argv \<noteq> None \<or> given_S argv \<noteq> None) \<longrightarrow>
      interface argv self_verbose =
        (Exit 2,
         [ParserError (''Cannot use boto profile -P (--boto_profile)'' @
                       ''with --aws_access_key or --aws_secret_key'')],
         self_verbose \<or> given_v argv))"
proof (intro conjI impI)
  show "network_calls (fst (snd (interface argv self_verbose))) = []"
    by (simp add: interface_def parse_args_def parser_error_def network_calls_def Let_def)
next
  assume "given_h argv"
  then show "interface argv self_verbose = (Exit 0, [PrintHelp], self_verbose)"
    by (simp add: interface_def parse_args_def)
next
  assume "\<not> given_h argv \<and> given_ey argv"
  then show "interface argv self_verbose =
        (Exit 0, [PrintExampleHeader, PrintExampleYaml], self_verbose)"
    by (simp add: interface_def parse_args_def len_sys_argv_is_1_def)
next
  assume "\<not> given_h argv \<and> \<not> given_ey argv \<and> given_P argv \<noteq> None \<and>
    (given_A argv \<noteq> None \<or> given_S argv \<noteq> None)"
  then show "interface argv self_verbose =
        (Exit 2,
         [ParserError (''Cannot use boto profile -P (--boto_profile)'' @
                       ''with --aws_access_key or --aws_secret_key'')],
         self_verbose \<or> given_v argv)"
    by (auto simp: interface_def parse_args_def len_sys_argv_is_1_def parser_error_def Let_def)
qed

theorem interface_conflicting_auth_witness:
  "given_P demo_command_line = Some ''dev'' \<and> given_A demo_command_line = Some ''AKIA1'' \<and>
   interface demo_command_line False =
     (Exit 2,
      [ParserError ''Cannot use boto profile -P (--boto_profile)with --aws_access_key or --aws_secret_key''],
      False) \<and>
   interface (demo_command_line\<lparr>given_ey := True\<rparr>) False =
     (Exit 0, [PrintExampleHeader, PrintExampleYaml], False) \<and>
   interface (demo_command_line\<lparr>given_h := True\<rparr>) False = (Exit 0, [PrintHelp], False)"
  using interface_conflicting_auth [of demo_command_line False]
    interface_conflicting_auth [of "demo_command_line\<lparr>given_ey := True\<rparr>" False]
    interface_conflicting_auth [of "demo_command_line\<lparr>given_h := True\<rparr>" False]
  by (simp add: demo_command_line_def)

text \<open>
  Claim C9 as stated fails: with \<^verbatim>\<open>-ey\<close> or with \<^verbatim>\<open>-h\<close> also given, the profile option and
  an explicit key option are on the command line and the process exits with status 0.
\<close>

theorem interface_example_or_help_first:
  "given_P (demo_command_line\<lparr>given_ey := True\<rparr>) = Some ''dev'' \<and>
   given_A (demo_command_line\<lparr>given_ey := True\<rparr>) = Some ''AKIA1'' \<and>
   fst (interface (demo_command_line\<lparr>given_ey := True\<rparr>) False) = Exit 0 \<and>
   given_P (demo_command_line\<lparr>given_h := True\<rparr>) = Some ''dev'' \<and>
   given_A (demo_command_line\<lparr>given_h := True\<rparr>) = Some ''AKIA1'' \<and>
   fst (interface (demo_command_line\<lparr>given_h := True\<rparr>) False) = Exit 0"
  by (simp add: demo_command_line_def interface_def parse_args_def len_sys_argv_is_1_def)

end
